theory Spec2Isabelle
  imports Main "HOL-Library.Sublist"
begin

section \<open>The in-memory evaluator of pql\<close>

text \<open>
  This theory embeds the evaluator of the \<open>pql\<close> package (\<open>Eval\<close>, \<open>eval\<close>,
  \<open>evalExpr\<close>, \<open>evalFuncs\<close>, \<open>stringToBool\<close>, \<open>boolToString\<close>) and proves
  properties of it. Every value of the evaluator is a Go string, that is a sequence of
  bytes: here a \<open>string\<close>, a list of 8-bit characters.
\<close>

subsection \<open>The syntax tree consumed by the evaluator\<close>

text \<open>
  Modelled from the spec: the token kinds of the \<open>parser\<close> package, whose declaration
  is not among the sources. The evaluator names \<open>TokenPlus\<close>, \<open>TokenMinus\<close>,
  \<open>TokenAnd\<close>, \<open>TokenOr\<close>, \<open>TokenEq\<close> and \<open>TokenNE\<close>; the others are the remaining
  operator tokens and literal kinds of the data model.
\<close>

datatype TokenKind =
    TokenAnd | TokenOr | TokenIn | TokenNot
  | TokenPlus | TokenMinus | TokenStar | TokenSlash | TokenMod
  | TokenAssign | TokenEq | TokenNE | TokenLT | TokenLE | TokenGT | TokenGE
  | TokenTilde | TokenNotTilde
  | TokenNumber | TokenString

text \<open>
  Modelled from the spec: the node types of the \<open>parser\<close> package. An identifier is a
  name with a quoted flag; expressions, sort terms, operators and the pipeline are the
  closed families of the data model. \<open>OtherSource\<close> stands for a data source that is not
  a table reference (the \<open>default\<close> branch of the switch over \<open>x.Source\<close>).
\<close>

datatype Ident = Ident string bool

fun IdentName :: "Ident \<Rightarrow> string" where
  "IdentName (Ident name quoted) = name"

datatype Expr =
    ParenExpr Expr
  | BasicLit TokenKind string
  | QualifiedIdent "Ident list"
  | UnaryExpr TokenKind Expr
  | BinaryExpr Expr TokenKind Expr
  | InExpr Expr "Expr list"
  | CallExpr Ident "Expr list"
  | IndexExpr Expr Expr

datatype SortTerm = SortTerm Expr bool bool

datatype TabularDataSource = TableRef Ident | OtherSource

datatype TabularExpr = TabularExpr TabularDataSource "TabularOperator list"
and TabularOperator =
    CountOperator
  | TakeOperator Expr
  | TopOperator Expr "SortTerm list"
  | WhereOperator Expr
  | SortOperator "SortTerm list"
  | ProjectOperator "(Ident \<times> Expr) list"
  | ExtendOperator "(Ident \<times> Expr) list"
  | SummarizeOperator "(Ident \<times> Expr) list" "(Ident \<times> Expr) list"
  | JoinOperator string TabularExpr "Expr list"
  | AsOperator Ident
  | RenderOperator

subsection \<open>Tables and errors\<close>

record Table =
  Name :: string
  Columns :: "string list"
  Data :: "string list list"

text \<open>
  Every \<open>fmt.Errorf\<close> of the source is a constructor; the two errors of
  \<open>strconv.Atoi\<close> and the run-time panics of an index out of range and of a \<open>nil\<close>
  pointer are values too.
\<close>

datatype error =
    ParseError string
  | UnknownTable string
  | UnhandledDataSource
  | AtoiSyntax
  | AtoiRange
  | NegativeRowCount
  | UnhandledOperator
  | QualifiedIdentifiersNotSupported
  | UnrecognizedIdentifier string
  | UnhandledUnaryOperator TokenKind
  | UnhandledBinaryOperator TokenKind
  | UnknownFunction string
  | UnhandledExpression
  | NotTakesExactlyOneArgument
  | StrcatTakesAtLeastOneArgument
  | PanicIndexOutOfRange
  | PanicNilDereference

subsection \<open>Strings and booleans\<close>

definition stringToBool :: "string \<Rightarrow> bool" where
  "stringToBool s = (s \<noteq> '''' \<and> s \<noteq> ''0'')"

definition boolToString :: "bool \<Rightarrow> string" where
  "boolToString b = (if b then ''1'' else ''0'')"

text \<open>\<open>strings.CutPrefix\<close>: the string without the prefix and whether it was there.\<close>

definition CutPrefix :: "string \<Rightarrow> string \<Rightarrow> string \<times> bool" where
  "CutPrefix s p = (if prefix p s then (drop (length p) s, True) else (s, False))"

subsection \<open>The functions of the evaluator\<close>

definition notFunc :: "string list \<Rightarrow> error + string" where
  "notFunc args =
     (if length args \<noteq> 1 then Inl NotTakesExactlyOneArgument
      else Inr (boolToString (\<not> stringToBool (args ! 0))))"

text \<open>\<open>strings.Join(args, "")\<close> is the concatenation of the arguments.\<close>

definition strcatFunc :: "string list \<Rightarrow> error + string" where
  "strcatFunc args =
     (if length args = 0 then Inl StrcatTakesAtLeastOneArgument
      else Inr (concat args))"

definition evalFuncs :: "string \<rightharpoonup> (string list \<Rightarrow> error + string)" where
  "evalFuncs = [''not'' \<mapsto> notFunc, ''strcat'' \<mapsto> strcatFunc]"

subsection \<open>Expressions\<close>

text \<open>
  \<open>evalExpr\<close> follows the type switch of the source. \<open>evalIn\<close> is the loop over
  \<open>x.Vals\<close> of an \<open>InExpr\<close>, \<open>evalArgs\<close> the loop over \<open>x.Args\<close> of a \<open>CallExpr\<close>
  with the arguments collected so far.
\<close>

fun evalExpr :: "Expr \<Rightarrow> (string \<rightharpoonup> string) \<Rightarrow> error + string"
and evalIn :: "string \<Rightarrow> Expr list \<Rightarrow> (string \<rightharpoonup> string) \<Rightarrow> error + string"
and evalArgs :: "Expr list \<Rightarrow> (string \<rightharpoonup> string) \<Rightarrow> string list \<Rightarrow> error + string list"
where
  "evalExpr (ParenExpr x) idents = evalExpr x idents"
| "evalExpr (BasicLit k v) idents = Inr v"
| "evalExpr (QualifiedIdent parts) idents =
     (if length parts \<noteq> 1 then Inl QualifiedIdentifiersNotSupported
      else (case idents (IdentName (parts ! 0)) of
              None \<Rightarrow> Inl (UnrecognizedIdentifier (IdentName (parts ! 0)))
            | Some v \<Rightarrow> Inr v))"
| "evalExpr (UnaryExpr op x) idents =
     (case evalExpr x idents of
        Inl e \<Rightarrow> Inl e
      | Inr inner \<Rightarrow>
          (if op = TokenPlus then Inr inner
           else if op = TokenMinus then
             (if snd (CutPrefix inner ''-'') then Inr (fst (CutPrefix inner ''-''))
              else Inr (''-'' @ inner))
           else Inl (UnhandledUnaryOperator op)))"
| "evalExpr (BinaryExpr x op y) idents =
     (case evalExpr x idents of
        Inl e \<Rightarrow> Inl e
      | Inr a \<Rightarrow>
          (if op = TokenAnd \<and> \<not> stringToBool a then Inr a
           else if op = TokenOr \<and> stringToBool a then Inr a
           else (case evalExpr y idents of
                   Inl e \<Rightarrow> Inl e
                 | Inr b \<Rightarrow>
                     (if op = TokenEq then Inr (boolToString (a = b))
                      else if op = TokenNE then Inr (boolToString (a \<noteq> b))
                      else if op = TokenAnd \<or> op = TokenOr then Inr b
                      else Inl (UnhandledBinaryOperator op)))))"
| "evalExpr (InExpr x vals) idents =
     (case evalExpr x idents of
        Inl e \<Rightarrow> Inl e
      | Inr a \<Rightarrow> evalIn a vals idents)"
| "evalExpr (CallExpr func args) idents =
     (case evalFuncs (IdentName func) of
        None \<Rightarrow> Inl (UnknownFunction (IdentName func))
      | Some f \<Rightarrow>
          (case evalArgs args idents [] of
             Inl e \<Rightarrow> Inl e
           | Inr as \<Rightarrow> f as))"
| "evalExpr (IndexExpr x i) idents = Inl UnhandledExpression"
| "evalIn a [] idents = Inr (boolToString False)"
| "evalIn a (y # ys) idents =
     (case evalExpr y idents of
        Inl e \<Rightarrow> Inl e
      | Inr b \<Rightarrow> (if a = b then Inr (boolToString True) else evalIn a ys idents))"
| "evalArgs [] idents args = Inr args"
| "evalArgs (a # as) idents args =
     (case evalExpr a idents of
        Inl e \<Rightarrow> Inl e
      | Inr aa \<Rightarrow> evalArgs as idents (args @ [aa]))"

subsection \<open>Decimal numbers: \<open>strconv.Itoa\<close> and \<open>strconv.Atoi\<close>\<close>

text \<open>
  The two functions belong to Go's standard library. \<open>Itoa\<close> prints an \<open>int\<close> in
  base 10. \<open>Atoi s\<close> is \<open>ParseInt(s, 10, 0)\<close>: an optional sign, then the digit loop of
  \<open>ParseUint\<close> in base 10 over 64 bits, which reports a syntax error at the first byte
  that is not a digit and a range error as soon as the value no longer fits; the
  result must fit the \<open>int\<close> type, taken here at its 64-bit size. The unsigned
  64-bit accumulator is an \<open>int\<close> whose bound is checked where the code checks it.
\<close>

definition isDigit :: "char \<Rightarrow> bool" where
  "isDigit c = (48 \<le> (of_char c :: int) \<and> (of_char c :: int) \<le> 57)"

definition digitVal :: "char \<Rightarrow> int" where
  "digitVal c = of_char c - 48"

definition digitChar :: "nat \<Rightarrow> char" where
  "digitChar d = ''0123456789'' ! d"

function natToDecimal :: "nat \<Rightarrow> string" where
  "natToDecimal n =
     (if n < 10 then [digitChar n] else natToDecimal (n div 10) @ [digitChar (n mod 10)])"
  by pat_completeness auto
termination
  by (relation "measure (\<lambda>n. n)") auto

definition Itoa :: "int \<Rightarrow> string" where
  "Itoa i = (if i < 0 then ''-'' @ natToDecimal (nat (- i)) else natToDecimal (nat i))"

definition maxUint64 :: int where
  "maxUint64 = 2 ^ 64 - 1"

definition cutoff :: int where
  "cutoff = maxUint64 div 10 + 1"

fun parseUintLoop :: "int \<Rightarrow> string \<Rightarrow> error + int" where
  "parseUintLoop n [] = Inr n"
| "parseUintLoop n (c # cs) =
     (if \<not> isDigit c then Inl AtoiSyntax
      else if n \<ge> cutoff then Inl AtoiRange
      else if n * 10 + digitVal c > maxUint64 then Inl AtoiRange
      else parseUintLoop (n * 10 + digitVal c) cs)"

definition ParseUint :: "string \<Rightarrow> error + int" where
  "ParseUint s = (if s = [] then Inl AtoiSyntax else parseUintLoop 0 s)"

definition ParseInt :: "string \<Rightarrow> error + int" where
  "ParseInt s =
     (if s = [] then Inl AtoiSyntax
      else
        (let neg = (hd s = CHR ''-'');
             s' = (if hd s = CHR ''+'' \<or> hd s = CHR ''-'' then tl s else s)
         in case ParseUint s' of
              Inl e \<Rightarrow> Inl e
            | Inr un \<Rightarrow>
                (if \<not> neg \<and> un \<ge> 2 ^ 63 then Inl AtoiRange
                 else if neg \<and> un > 2 ^ 63 then Inl AtoiRange
                 else Inr (if neg then - un else un))))"

definition Atoi :: "string \<Rightarrow> error + int" where
  "Atoi s = ParseInt s"

subsection \<open>Pipelines\<close>

text \<open>
  The identifier map that a \<open>where\<close> operator starts from, and the inner loop
  \<open>for i, val := range row { idents[curr.Columns[i]] = val }\<close>: the columns are
  consumed in step with the cells, and a cell without a column is the index out of
  range of \<open>curr.Columns[i]\<close>.
\<close>

definition whereIdents :: "string \<rightharpoonup> string" where
  "whereIdents = [''null'' \<mapsto> '''', ''true'' \<mapsto> ''1'', ''false'' \<mapsto> ''0'']"

fun fillIdents :: "string list \<Rightarrow> (string \<rightharpoonup> string) \<Rightarrow> string list \<Rightarrow> error + (string \<rightharpoonup> string)" where
  "fillIdents cols idents [] = Inr idents"
| "fillIdents [] idents (val # row) = Inl PanicIndexOutOfRange"
| "fillIdents (c # cols) idents (val # row) = fillIdents cols (idents(c \<mapsto> val)) row"

text \<open>
  The loop over the rows of a \<open>where\<close> operator. The identifier map is shared by all
  rows; \<open>newData\<close> is \<open>newTable.Data\<close>.
\<close>

fun whereLoop :: "Expr \<Rightarrow> string list \<Rightarrow> (string \<rightharpoonup> string) \<Rightarrow> string list list
    \<Rightarrow> string list list \<Rightarrow> error + string list list" where
  "whereLoop predicate cols idents [] newData = Inr newData"
| "whereLoop predicate cols idents (row # rows) newData =
     (case fillIdents cols idents row of
        Inl e \<Rightarrow> Inl e
      | Inr idents' \<Rightarrow>
          (case evalExpr predicate idents' of
             Inl e \<Rightarrow> Inl e
           | Inr result \<Rightarrow>
               whereLoop predicate cols idents' rows
                 (if stringToBool result then newData @ [row] else newData)))"

text \<open>
  One iteration of the loop over \<open>x.Operators\<close>: the body of the type switch. The
  local \<open>curr\<close> of the source is written \<open>cur\<close>, the shorter name being free in HOL.
  A new table is built without a \<open>Name\<close>, which is the empty string.
\<close>

fun evalOperator :: "Table \<Rightarrow> TabularOperator \<Rightarrow> error + Table" where
  "evalOperator cur CountOperator =
     Inr \<lparr>Name = '''', Columns = [''count()''],
          Data = [[Itoa (int (length (Data cur)))]]\<rparr>"
| "evalOperator cur (TakeOperator rowCountExpr) =
     (case evalExpr rowCountExpr Map.empty of
        Inl e \<Rightarrow> Inl e
      | Inr rowCount \<Rightarrow>
          (case Atoi rowCount of
             Inl e \<Rightarrow> Inl e
           | Inr n \<Rightarrow>
               (if n < 0 then Inl NegativeRowCount
                else Inr \<lparr>Name = '''', Columns = Columns cur,
                          Data = take (nat (min n (int (length (Data cur))))) (Data cur)\<rparr>)))"
| "evalOperator cur (WhereOperator predicate) =
     (case whereLoop predicate (Columns cur) whereIdents (Data cur) [] of
        Inl e \<Rightarrow> Inl e
      | Inr newData \<Rightarrow> Inr \<lparr>Name = '''', Columns = Columns cur, Data = newData\<rparr>)"
| "evalOperator cur _ = Inl UnhandledOperator"

fun evalOperators :: "Table \<Rightarrow> TabularOperator list \<Rightarrow> error + Table" where
  "evalOperators cur [] = Inr cur"
| "evalOperators cur (op # ops) =
     (case evalOperator cur op of
        Inl e \<Rightarrow> Inl e
      | Inr cur' \<Rightarrow> evalOperators cur' ops)"

fun eval :: "TabularExpr \<Rightarrow> (string \<rightharpoonup> Table) \<Rightarrow> error + Table" where
  "eval (TabularExpr (TableRef table) operators) tables =
     (case tables (IdentName table) of
        None \<Rightarrow> Inl (UnknownTable (IdentName table))
      | Some cur \<Rightarrow> evalOperators cur operators)"
| "eval (TabularExpr OtherSource operators) tables = Inl UnhandledDataSource"

text \<open>
  \<open>Eval\<close> parses the source and indexes the tables by name, a later table replacing
  an earlier one of the same name. The parser is not among the sources: it is the
  parameter \<open>Parse\<close>.
\<close>

definition tableMap :: "Table list \<Rightarrow> (string \<rightharpoonup> Table)" where
  "tableMap tables = foldl (\<lambda>m tab. m(Name tab \<mapsto> tab)) Map.empty tables"

definition Eval :: "(string \<Rightarrow> error + TabularExpr) \<Rightarrow> string \<Rightarrow> Table list \<Rightarrow> error + Table" where
  "Eval Parse source tables =
     (case Parse source of
        Inl err \<Rightarrow> Inl err
      | Inr expr \<Rightarrow> eval expr (tableMap tables))"

subsection \<open>The evaluator on Go's memory\<close>

text \<open>
  \<open>Eval\<close> receives pointers to tables whose \<open>Columns\<close> and \<open>Data\<close> are slices: views
  of arrays that the caller may share with the result. To say what a call does to the
  caller's tables, the second model keeps Go's memory explicit. The heap is a list of
  objects, an address is an index into it, and an allocation appends an object. A
  slice header is the address of its backing array, the index of its first element in
  that array, its length and its capacity. A backing array of strings, a backing array
  of slice headers and a \<open>Table\<close> struct are the three kinds of object. Strings are
  immutable values; the identifier map is a local of \<open>eval\<close> that no table refers to,
  so it stays a value.

  Reading through an address that holds no object of the expected kind cannot happen
  in Go (pointers are typed); the model reports it like the dereference of \<open>nil\<close>.
\<close>

type_synonym addr = nat

datatype slice = Slice (sliceArray: addr) (sliceOffset: nat) (sliceLen: nat) (sliceCap: nat)

datatype object =
    StringArray "string list"
  | SliceArray "slice list"
  | TableObject string slice slice

type_synonym heap = "object list"

definition nilSlice :: slice where
  "nilSlice = Slice 0 0 0 0"

definition alloc :: "heap \<Rightarrow> object \<Rightarrow> heap \<times> addr" where
  "alloc h obj = (h @ [obj], length h)"

text \<open>\<open>*p\<close> for a table pointer: the fields \<open>Name\<close>, \<open>Columns\<close> and \<open>Data\<close>.\<close>

definition readTable :: "heap \<Rightarrow> addr \<Rightarrow> error + (string \<times> slice \<times> slice)" where
  "readTable h p =
     (if p < length h then
        (case h ! p of
           TableObject name cols data \<Rightarrow> Inr (name, cols, data)
         | _ \<Rightarrow> Inl PanicNilDereference)
      else Inl PanicNilDereference)"

text \<open>\<open>s[i]\<close> for a slice of strings and for a slice of rows.\<close>

definition indexString :: "heap \<Rightarrow> slice \<Rightarrow> nat \<Rightarrow> error + string" where
  "indexString h s i =
     (if \<not> i < sliceLen s then Inl PanicIndexOutOfRange
      else if \<not> sliceArray s < length h then Inl PanicNilDereference
      else (case h ! sliceArray s of
              StringArray xs \<Rightarrow>
                (if sliceOffset s + i < length xs then Inr (xs ! (sliceOffset s + i))
                 else Inl PanicNilDereference)
            | _ \<Rightarrow> Inl PanicNilDereference))"

definition indexSlice :: "heap \<Rightarrow> slice \<Rightarrow> nat \<Rightarrow> error + slice" where
  "indexSlice h s i =
     (if \<not> i < sliceLen s then Inl PanicIndexOutOfRange
      else if \<not> sliceArray s < length h then Inl PanicNilDereference
      else (case h ! sliceArray s of
              SliceArray xs \<Rightarrow>
                (if sliceOffset s + i < length xs then Inr (xs ! (sliceOffset s + i))
                 else Inl PanicNilDereference)
            | _ \<Rightarrow> Inl PanicNilDereference))"

text \<open>
  The inner loop of \<open>where\<close> over the indices of the row: \<open>val\<close> is \<open>row[i]\<close> and the
  key is \<open>curr.Columns[i]\<close>, read through the pointer \<open>curr\<close>.
\<close>

fun fillIdentsH :: "heap \<Rightarrow> addr \<Rightarrow> slice \<Rightarrow> (string \<rightharpoonup> string) \<Rightarrow> nat list
    \<Rightarrow> error + (string \<rightharpoonup> string)" where
  "fillIdentsH h cur row idents [] = Inr idents"
| "fillIdentsH h cur row idents (i # is) =
     (case indexString h row i of
        Inl e \<Rightarrow> Inl e
      | Inr val \<Rightarrow>
          (case readTable h cur of
             Inl e \<Rightarrow> Inl e
           | Inr (name, cols, data) \<Rightarrow>
               (case indexString h cols i of
                  Inl e \<Rightarrow> Inl e
                | Inr c \<Rightarrow> fillIdentsH h cur row (idents(c \<mapsto> val)) is)))"

text \<open>
  \<open>newTable.Data = append(newTable.Data, row)\<close>. With spare capacity the row is stored
  in the backing array in place and the length grows by one. Without, \<open>append\<close>
  allocates a larger array and copies; the new capacity is the runtime's choice, here
  twice the old one plus one.
\<close>

fun sliceElems :: "slice list \<Rightarrow> slice \<Rightarrow> slice list" where
  "sliceElems xs s = take (sliceLen s) (drop (sliceOffset s) xs)"

definition appendRow :: "heap \<Rightarrow> addr \<Rightarrow> slice \<Rightarrow> heap \<times> (error + unit)" where
  "appendRow h newTable row =
     (case readTable h newTable of
        Inl e \<Rightarrow> (h, Inl e)
      | Inr (name, cols, data) \<Rightarrow>
          (if \<not> sliceArray data < length h then (h, Inl PanicNilDereference)
           else (case h ! sliceArray data of
                   SliceArray xs \<Rightarrow>
                     (if sliceLen data < sliceCap data then
                        (h[sliceArray data := SliceArray (xs[sliceOffset data + sliceLen data := row]),
                           newTable := TableObject name cols
                             (Slice (sliceArray data) (sliceOffset data)
                                (sliceLen data + 1) (sliceCap data))],
                         Inr ())
                      else
                        (let grown = sliceElems xs data @ [row]
                               @ replicate (sliceCap data) nilSlice;
                             (h', a) = alloc h (SliceArray grown)
                         in (h'[newTable := TableObject name cols
                                  (Slice a 0 (sliceLen data + 1) (2 * sliceCap data + 1))],
                             Inr ())))
                 | _ \<Rightarrow> (h, Inl PanicNilDereference))))"

text \<open>
  The loop \<open>for _, row := range curr.Data\<close>: the slice header \<open>data\<close> is read once,
  before the loop, and each row is read from its backing array when its turn comes.
\<close>

fun whereLoopH :: "heap \<Rightarrow> Expr \<Rightarrow> addr \<Rightarrow> slice \<Rightarrow> addr \<Rightarrow> (string \<rightharpoonup> string)
    \<Rightarrow> nat list \<Rightarrow> heap \<times> (error + unit)" where
  "whereLoopH h predicate cur data newTable idents [] = (h, Inr ())"
| "whereLoopH h predicate cur data newTable idents (i # is) =
     (case indexSlice h data i of
        Inl e \<Rightarrow> (h, Inl e)
      | Inr row \<Rightarrow>
          (case fillIdentsH h cur row idents [0..<sliceLen row] of
             Inl e \<Rightarrow> (h, Inl e)
           | Inr idents' \<Rightarrow>
               (case evalExpr predicate idents' of
                  Inl e \<Rightarrow> (h, Inl e)
                | Inr result \<Rightarrow>
                    (if stringToBool result then
                       (case appendRow h newTable row of
                          (h', Inl e) \<Rightarrow> (h', Inl e)
                        | (h', Inr u) \<Rightarrow>
                            whereLoopH h' predicate cur data newTable idents' is)
                     else whereLoopH h predicate cur data newTable idents' is))))"

fun evalOperatorH :: "heap \<Rightarrow> addr \<Rightarrow> TabularOperator \<Rightarrow> heap \<times> (error + addr)" where
  "evalOperatorH h cur CountOperator =
     (case readTable h cur of
        Inl e \<Rightarrow> (h, Inl e)
      | Inr (name, cols, data) \<Rightarrow>
          (let (h1, a1) = alloc h (StringArray [''count()'']);
               (h2, a2) = alloc h1 (StringArray [Itoa (int (sliceLen data))]);
               (h3, a3) = alloc h2 (SliceArray [Slice a2 0 1 1]);
               (h4, a4) = alloc h3 (TableObject '''' (Slice a1 0 1 1) (Slice a3 0 1 1))
           in (h4, Inr a4)))"
| "evalOperatorH h cur (TakeOperator rowCountExpr) =
     (case evalExpr rowCountExpr Map.empty of
        Inl e \<Rightarrow> (h, Inl e)
      | Inr rowCount \<Rightarrow>
          (case Atoi rowCount of
             Inl e \<Rightarrow> (h, Inl e)
           | Inr n \<Rightarrow>
               (if n < 0 then (h, Inl NegativeRowCount)
                else (case readTable h cur of
                        Inl e \<Rightarrow> (h, Inl e)
                      | Inr (name, cols, data) \<Rightarrow>
                          (let (h1, a1) = alloc h (TableObject '''' cols
                                 (Slice (sliceArray data) (sliceOffset data)
                                    (nat (min n (int (sliceLen data)))) (sliceCap data)))
                           in (h1, Inr a1))))))"
| "evalOperatorH h cur (WhereOperator predicate) =
     (case readTable h cur of
        Inl e \<Rightarrow> (h, Inl e)
      | Inr (name, cols, data) \<Rightarrow>
          (let (h1, a1) = alloc h (SliceArray (replicate (sliceLen data) nilSlice));
               (h2, newTable) = alloc h1 (TableObject '''' cols (Slice a1 0 0 (sliceLen data)))
           in (case whereLoopH h2 predicate cur data newTable whereIdents [0..<sliceLen data] of
                 (h3, Inl e) \<Rightarrow> (h3, Inl e)
               | (h3, Inr u) \<Rightarrow> (h3, Inr newTable))))"
| "evalOperatorH h cur _ = (h, Inl UnhandledOperator)"

fun evalOperatorsH :: "heap \<Rightarrow> addr \<Rightarrow> TabularOperator list \<Rightarrow> heap \<times> (error + addr)" where
  "evalOperatorsH h cur [] = (h, Inr cur)"
| "evalOperatorsH h cur (op # ops) =
     (case evalOperatorH h cur op of
        (h', Inl e) \<Rightarrow> (h', Inl e)
      | (h', Inr cur') \<Rightarrow> evalOperatorsH h' cur' ops)"

fun evalH :: "heap \<Rightarrow> TabularExpr \<Rightarrow> (string \<rightharpoonup> addr) \<Rightarrow> heap \<times> (error + addr)" where
  "evalH h (TabularExpr (TableRef table) operators) tables =
     (case tables (IdentName table) of
        None \<Rightarrow> (h, Inl (UnknownTable (IdentName table)))
      | Some cur \<Rightarrow> evalOperatorsH h cur operators)"
| "evalH h (TabularExpr OtherSource operators) tables = (h, Inl UnhandledDataSource)"

text \<open>
  The loop of \<open>Eval\<close> that fills \<open>tableMap\<close>: \<open>tab.Name\<close> dereferences each pointer of
  the caller's list, a \<open>nil\<close> pointer being \<open>None\<close>.
\<close>

fun tableMapH :: "heap \<Rightarrow> (string \<rightharpoonup> addr) \<Rightarrow> addr option list \<Rightarrow> error + (string \<rightharpoonup> addr)" where
  "tableMapH h m [] = Inr m"
| "tableMapH h m (None # tabs) = Inl PanicNilDereference"
| "tableMapH h m (Some tab # tabs) =
     (case readTable h tab of
        Inl e \<Rightarrow> Inl e
      | Inr (name, cols, data) \<Rightarrow> tableMapH h (m(name \<mapsto> tab)) tabs)"

definition EvalH :: "(string \<Rightarrow> error + TabularExpr) \<Rightarrow> string \<Rightarrow> heap \<Rightarrow> addr option list
    \<Rightarrow> heap \<times> (error + addr)" where
  "EvalH Parse source h tables =
     (case Parse source of
        Inl err \<Rightarrow> (h, Inl err)
      | Inr expr \<Rightarrow>
          (case tableMapH h Map.empty tables of
             Inl e \<Rightarrow> (h, Inl e)
           | Inr m \<Rightarrow> evalH h expr m))"

text \<open>
  What a caller sees of a table through its pointer: the name, the column names and
  every cell of every row.
\<close>

fun collect :: "(nat \<Rightarrow> error + 'a) \<Rightarrow> nat list \<Rightarrow> error + 'a list" where
  "collect f [] = Inr []"
| "collect f (i # is) =
     (case f i of
        Inl e \<Rightarrow> Inl e
      | Inr x \<Rightarrow> (case collect f is of Inl e \<Rightarrow> Inl e | Inr xs \<Rightarrow> Inr (x # xs)))"

definition sliceStrings :: "heap \<Rightarrow> slice \<Rightarrow> error + string list" where
  "sliceStrings h s = collect (indexString h s) [0..<sliceLen s]"

definition sliceRows :: "heap \<Rightarrow> slice \<Rightarrow> error + string list list" where
  "sliceRows h s =
     collect (\<lambda>i. case indexSlice h s i of Inl e \<Rightarrow> Inl e | Inr row \<Rightarrow> sliceStrings h row)
       [0..<sliceLen s]"

definition tableValue :: "heap \<Rightarrow> addr \<Rightarrow> error + Table" where
  "tableValue h p =
     (case readTable h p of
        Inl e \<Rightarrow> Inl e
      | Inr (name, cols, data) \<Rightarrow>
          (case sliceStrings h cols of
             Inl e \<Rightarrow> Inl e
           | Inr cs \<Rightarrow>
               (case sliceRows h data of
                  Inl e \<Rightarrow> Inl e
                | Inr rows \<Rightarrow> Inr \<lparr>Name = name, Columns = cs, Data = rows\<rparr>)))"

subsection \<open>Notions used to state the properties\<close>

text \<open>The pipeline operators that the evaluator implements.\<close>

fun supportedOperator :: "TabularOperator \<Rightarrow> bool" where
  "supportedOperator CountOperator = True"
| "supportedOperator (TakeOperator n) = True"
| "supportedOperator (WhereOperator p) = True"
| "supportedOperator _ = False"

text \<open>
  The identifier map after the inner loop has run for each of \<open>rows\<close> in turn: the map
  in which the predicate is evaluated for the last of them.
\<close>

fun identsAfter :: "string list \<Rightarrow> (string \<rightharpoonup> string) \<Rightarrow> string list list
    \<Rightarrow> error + (string \<rightharpoonup> string)" where
  "identsAfter cols idents [] = Inr idents"
| "identsAfter cols idents (row # rows) =
     (case fillIdents cols idents row of
        Inl e \<Rightarrow> Inl e
      | Inr idents' \<Rightarrow> identsAfter cols idents' rows)"

text \<open>
  The predicate evaluated for one row on its own, from the seeded identifier map:
  \<open>rowResult\<close> is its outcome, \<open>rowMatches\<close> says that it is a truthy string.
\<close>

definition rowResult :: "Expr \<Rightarrow> string list \<Rightarrow> string list \<Rightarrow> error + string" where
  "rowResult predicate cols row =
     (case fillIdents cols whereIdents row of
        Inl e \<Rightarrow> Inl e
      | Inr idents \<Rightarrow> evalExpr predicate idents)"

definition rowMatches :: "Expr \<Rightarrow> string list \<Rightarrow> string list \<Rightarrow> bool" where
  "rowMatches predicate cols row =
     (case rowResult predicate cols row of
        Inl e \<Rightarrow> False
      | Inr result \<Rightarrow> stringToBool result)"

text \<open>
  The decimal representation of an integer, in the words of the specification: an
  optional sign followed by one or more decimal digits, and the integer it denotes.
\<close>

definition unsignedPart :: "string \<Rightarrow> string" where
  "unsignedPart s =
     (if s \<noteq> [] \<and> (hd s = CHR ''+'' \<or> hd s = CHR ''-'') then tl s else s)"

definition isDecimalInteger :: "string \<Rightarrow> bool" where
  "isDecimalInteger s = (unsignedPart s \<noteq> [] \<and> list_all isDigit (unsignedPart s))"

definition digitsValue :: "string \<Rightarrow> int" where
  "digitsValue ds = foldl (\<lambda>n c. n * 10 + digitVal c) 0 ds"

definition decimalValue :: "string \<Rightarrow> int" where
  "decimalValue s =
     (if s \<noteq> [] \<and> hd s = CHR ''-'' then - digitsValue (tl s)
      else digitsValue (unsignedPart s))"

text \<open>
  \<open>substIdent name v x\<close> is the expression \<open>x\<close> with every bare identifier \<open>name\<close> (of
  one part, quoted or not) replaced by a literal of value \<open>v\<close>.
\<close>

fun substIdent :: "string \<Rightarrow> string \<Rightarrow> Expr \<Rightarrow> Expr" where
  "substIdent name v (ParenExpr x) = ParenExpr (substIdent name v x)"
| "substIdent name v (BasicLit k w) = BasicLit k w"
| "substIdent name v (QualifiedIdent parts) =
     (if length parts = 1 \<and> IdentName (parts ! 0) = name then BasicLit TokenString v
      else QualifiedIdent parts)"
| "substIdent name v (UnaryExpr op x) = UnaryExpr op (substIdent name v x)"
| "substIdent name v (BinaryExpr x op y) =
     BinaryExpr (substIdent name v x) op (substIdent name v y)"
| "substIdent name v (InExpr x vals) =
     InExpr (substIdent name v x) (map (substIdent name v) vals)"
| "substIdent name v (CallExpr func args) = CallExpr func (map (substIdent name v) args)"
| "substIdent name v (IndexExpr x i) = IndexExpr (substIdent name v x) (substIdent name v i)"

text \<open>
  The subexpressions on which \<open>evalExpr\<close> is called while it evaluates an expression,
  at any depth, in the order of the calls: the operand of a parenthesis or of a unary
  operator; the left operand of a binary operator and, unless the left operand fails
  or the short circuit returns, the right one; the operand of \<open>in\<close> and its values up
  to the first that fails or is equal; the arguments of a call to a known function up
  to the first that fails.
\<close>

fun evaluatedIn :: "Expr \<Rightarrow> (string \<rightharpoonup> string) \<Rightarrow> Expr list"
and evaluatedVals :: "string \<Rightarrow> Expr list \<Rightarrow> (string \<rightharpoonup> string) \<Rightarrow> Expr list"
and evaluatedArgs :: "Expr list \<Rightarrow> (string \<rightharpoonup> string) \<Rightarrow> Expr list"
where
  "evaluatedIn (ParenExpr x) idents = x # evaluatedIn x idents"
| "evaluatedIn (BasicLit k v) idents = []"
| "evaluatedIn (QualifiedIdent parts) idents = []"
| "evaluatedIn (UnaryExpr op x) idents = x # evaluatedIn x idents"
| "evaluatedIn (BinaryExpr x op y) idents =
     x # evaluatedIn x idents @
     (case evalExpr x idents of
        Inl e \<Rightarrow> []
      | Inr a \<Rightarrow>
          (if op = TokenAnd \<and> \<not> stringToBool a then []
           else if op = TokenOr \<and> stringToBool a then []
           else y # evaluatedIn y idents))"
| "evaluatedIn (InExpr x vals) idents =
     x # evaluatedIn x idents @
     (case evalExpr x idents of
        Inl e \<Rightarrow> []
      | Inr a \<Rightarrow> evaluatedVals a vals idents)"
| "evaluatedIn (CallExpr func args) idents =
     (case evalFuncs (IdentName func) of
        None \<Rightarrow> []
      | Some f \<Rightarrow> evaluatedArgs args idents)"
| "evaluatedIn (IndexExpr x i) idents = []"
| "evaluatedVals a [] idents = []"
| "evaluatedVals a (y # ys) idents =
     y # evaluatedIn y idents @
     (case evalExpr y idents of
        Inl e \<Rightarrow> []
      | Inr b \<Rightarrow> (if a = b then [] else evaluatedVals a ys idents))"
| "evaluatedArgs [] idents = []"
| "evaluatedArgs (a # as) idents =
     a # evaluatedIn a idents @
     (case evalExpr a idents of
        Inl e \<Rightarrow> []
      | Inr aa \<Rightarrow> evaluatedArgs as idents)"

section \<open>Properties of expression evaluation\<close>

subsection \<open>Auxiliary facts\<close>

lemma evalIn_all:
  "map (\<lambda>v. evalExpr v idents) vals = map Inr vs \<Longrightarrow>
   evalIn a vals idents = Inr (boolToString (a \<in> set vs))"
proof (induction vals arbitrary: vs)
  case Nil
  then show ?case by simp
next
  case (Cons y ys)
  then obtain b bs where vs: "vs = b # bs" and y: "evalExpr y idents = Inr b"
    and ys: "map (\<lambda>v. evalExpr v idents) ys = map Inr bs"
    by (cases vs) auto
  from Cons.IH [OF ys] show ?case
    by (auto simp: vs y boolToString_def)
qed

lemma CutPrefix_minus:
  "CutPrefix s ''-'' = (if prefix ''-'' s then (drop 1 s, True) else (s, False))"
  by (simp add: CutPrefix_def)

lemma unary_minus_value:
  "evalExpr X idents = Inr s \<Longrightarrow>
   evalExpr (UnaryExpr TokenMinus X) idents =
     Inr (if prefix ''-'' s then drop 1 s else ''-'' @ s)"
  by (simp add: CutPrefix_minus)

subsection \<open>Short-circuit \<open>and\<close> and \<open>or\<close>\<close>



subsection \<open>Equality, inequality and membership\<close>

text \<open>
  Claim C5. When \<open>X\<close> evaluates to \<open>a\<close> and \<open>Y\<close> to \<open>b\<close>, \<open>X == Y\<close> is \<open>"1"\<close> if the two
  strings are equal byte for byte and \<open>"0"\<close> otherwise, and \<open>X != Y\<close> is the opposite;
  when the values \<open>v1, ..., vn\<close> evaluate to the strings \<open>vs\<close>, \<open>X in (v1, ..., vn)\<close> is
  \<open>"1"\<close> if \<open>a\<close> is one of them and \<open>"0"\<close> otherwise.
\<close>

theorem equality_and_in:
  assumes "evalExpr X idents = Inr a"
  shows "(evalExpr Y idents = Inr b \<longrightarrow>
            evalExpr (BinaryExpr X TokenEq Y) idents = Inr (if a = b then ''1'' else ''0'')
          \<and> evalExpr (BinaryExpr X TokenNE Y) idents = Inr (if a = b then ''0'' else ''1''))
       \<and> (map (\<lambda>v. evalExpr v idents) vals = map Inr vs \<longrightarrow>
            evalExpr (InExpr X vals) idents = Inr (if a \<in> set vs then ''1'' else ''0''))"
  using assms by (auto simp: boolToString_def evalIn_all)

theorem equality_and_in_witness:
  "evalExpr (BasicLit TokenString ''ab'') Map.empty = Inr ''ab''
   \<and> evalExpr (BasicLit TokenString ''aB'') Map.empty = Inr ''aB''
   \<and> map (\<lambda>v. evalExpr v Map.empty) [BasicLit TokenString ''x'', BasicLit TokenString ''ab'']
       = map Inr [''x'', ''ab'']
   \<and> evalExpr (BinaryExpr (BasicLit TokenString ''ab'') TokenEq (BasicLit TokenString ''aB''))
       Map.empty = Inr ''0''
   \<and> evalExpr (BinaryExpr (BasicLit TokenString ''ab'') TokenNE (BasicLit TokenString ''aB''))
       Map.empty = Inr ''1''
   \<and> evalExpr (InExpr (BasicLit TokenString ''ab'')
         [BasicLit TokenString ''x'', BasicLit TokenString ''ab'']) Map.empty = Inr ''1''"
proof -
  have h: "evalExpr (BasicLit TokenString ''ab'') Map.empty = Inr ''ab''" by simp
  show ?thesis
    using h equality_and_in [OF h, of "BasicLit TokenString ''aB''" "''aB''"
        "[BasicLit TokenString ''x'', BasicLit TokenString ''ab'']" "[''x'', ''ab'']"]
    by simp
qed

subsection \<open>Unary minus\<close>

text \<open>
  Claim C6, amended. Unary minus toggles a leading \<open>-\<close> on its operand's string \<open>s\<close>: it
  removes one leading \<open>-\<close> if there is one and prepends one otherwise. Applying it twice
  gives \<open>s\<close> again exactly when \<open>s\<close> does not begin with \<open>--\<close>; for a string that begins
  with \<open>--\<close> it removes these two bytes.
\<close>

theorem unary_minus_toggle:
  assumes "evalExpr X idents = Inr s"
  shows "evalExpr (UnaryExpr TokenMinus X) idents =
           Inr (if prefix ''-'' s then drop 1 s else ''-'' @ s)
       \<and> evalExpr (UnaryExpr TokenMinus (UnaryExpr TokenMinus X)) idents =
           Inr (if prefix ''--'' s then drop 2 s else s)"
proof -
  have 1: "evalExpr (UnaryExpr TokenMinus X) idents =
           Inr (if prefix ''-'' s then drop 1 s else ''-'' @ s)"
    using assms by (rule unary_minus_value)
  have "evalExpr (UnaryExpr TokenMinus (UnaryExpr TokenMinus X)) idents =
           Inr (if prefix ''-'' (if prefix ''-'' s then drop 1 s else ''-'' @ s)
                then drop 1 (if prefix ''-'' s then drop 1 s else ''-'' @ s)
                else ''-'' @ (if prefix ''-'' s then drop 1 s else ''-'' @ s))"
    by (rule unary_minus_value [OF 1])
  also have "(if prefix ''-'' (if prefix ''-'' s then drop 1 s else ''-'' @ s)
                then drop 1 (if prefix ''-'' s then drop 1 s else ''-'' @ s)
                else ''-'' @ (if prefix ''-'' s then drop 1 s else ''-'' @ s))
             = (if prefix ''--'' s then drop 2 s else s)"
    by (cases s; cases "tl s") auto
  finally have 2: "evalExpr (UnaryExpr TokenMinus (UnaryExpr TokenMinus X)) idents =
           Inr (if prefix ''--'' s then drop 2 s else s)" .
  from 1 2 show ?thesis by simp
qed

theorem unary_minus_toggle_witness:
  "evalExpr (BasicLit TokenNumber ''-7'') Map.empty = Inr ''-7''
   \<and> evalExpr (UnaryExpr TokenMinus (BasicLit TokenNumber ''-7'')) Map.empty = Inr ''7''
   \<and> evalExpr (UnaryExpr TokenMinus (UnaryExpr TokenMinus (BasicLit TokenNumber ''-7'')))
       Map.empty = Inr ''-7''"
proof -
  have h: "evalExpr (BasicLit TokenNumber ''-7'') Map.empty = Inr ''-7''" by simp
  show ?thesis
    using h unary_minus_toggle [OF h] by (simp add: CutPrefix_def)
qed

theorem double_minus_counterexample:
  "evalExpr (BasicLit TokenString ''--5'') Map.empty = Inr ''--5''
   \<and> evalExpr (UnaryExpr TokenMinus (UnaryExpr TokenMinus (BasicLit TokenString ''--5'')))
       Map.empty = Inr ''5''
   \<and> ''5'' \<noteq> ''--5''"
  by (simp add: CutPrefix_def)

section \<open>Auxiliary facts about evaluation\<close>


lemma evalOperators_append:
  "evalOperators cur (ops1 @ ops2) =
     (case evalOperators cur ops1 of Inl e \<Rightarrow> Inl e | Inr t \<Rightarrow> evalOperators t ops2)"
  by (induction ops1 arbitrary: cur) (auto split: sum.splits)

lemma evalOperator_unsupported:
  "\<not> supportedOperator op \<Longrightarrow> evalOperator cur op = Inl UnhandledOperator"
  by (cases op) auto

lemma evalOperators_unsupported:
  "op \<in> set ops \<Longrightarrow> \<not> supportedOperator op \<Longrightarrow> isl (evalOperators cur ops)"
proof (induction ops arbitrary: cur)
  case Nil
  then show ?case by simp
next
  case (Cons a ops)
  show ?case
  proof (cases "evalOperator cur a")
    case (Inl e)
    then show ?thesis by simp
  next
    case (Inr t)
    with Cons.prems have "a \<noteq> op" by (auto simp: evalOperator_unsupported)
    with Cons.prems have "op \<in> set ops" by simp
    from Cons.IH [OF this Cons.prems(2)] Inr show ?thesis by simp
  qed
qed

lemma whereLoop_error_append:
  "whereLoop p cols idents rows acc = Inl e \<Longrightarrow>
   whereLoop p cols idents (rows @ rest) acc = Inl e"
  by (induction rows arbitrary: idents acc) (auto split: sum.splits)

subsection \<open>The identifier map of the \<open>where\<close> loop\<close>

lemma fillIdents_closed:
  "length row \<le> length cols \<Longrightarrow>
   fillIdents cols idents row = Inr (idents ++ map_of (rev (zip cols row)))"
proof (induction row arbitrary: cols idents)
  case Nil
  then show ?case by simp
next
  case (Cons val row)
  then obtain c cs where cols: "cols = c # cs" and le: "length row \<le> length cs"
    by (cases cols) auto
  let ?M = "map_of (rev (zip cs row))"
  have IH: "fillIdents cs (idents(c \<mapsto> val)) row = Inr (idents(c \<mapsto> val) ++ ?M)"
    by (rule Cons.IH [OF le])
  have "map_of (rev (zip (c # cs) (val # row))) = [c \<mapsto> val] ++ ?M"
    by (simp add: map_of_append)
  then have "idents ++ map_of (rev (zip (c # cs) (val # row))) = idents ++ ([c \<mapsto> val] ++ ?M)"
    by simp
  also have "\<dots> = (idents ++ [c \<mapsto> val]) ++ ?M"
    by (rule map_add_assoc)
  also have "idents ++ [c \<mapsto> val] = idents(c \<mapsto> val)"
    by simp
  finally show ?case
    using IH cols by simp
qed

lemma fillIdents_too_long:
  "length cols < length row \<Longrightarrow> fillIdents cols idents row = Inl PanicIndexOutOfRange"
  by (induction cols idents row rule: fillIdents.induct) simp_all

lemma fillIdents_other:
  "fillIdents cols idents row = Inr idents' \<Longrightarrow>
   name \<notin> set (take (length row) cols) \<Longrightarrow> idents' name = idents name"
  by (induction cols idents row rule: fillIdents.induct) auto

lemma fillIdents_cell:
  "fillIdents cols idents row = Inr idents' \<Longrightarrow> k < length row \<Longrightarrow> cols ! k = name \<Longrightarrow>
   (\<forall>j. k < j \<and> j < length row \<longrightarrow> cols ! j \<noteq> name) \<Longrightarrow>
   idents' name = Some (row ! k)"
proof (induction cols idents row arbitrary: k rule: fillIdents.induct)
  case (1 cols idents)
  then show ?case by simp
next
  case (2 idents val row)
  then show ?case by simp
next
  case (3 c cols idents val row)
  from "3.prems"(1) have fill: "fillIdents cols (idents(c \<mapsto> val)) row = Inr idents'"
    by simp
  have le: "length row \<le> length cols"
    using fill fillIdents_too_long [of cols row "idents(c \<mapsto> val)"]
    by (cases "length cols < length row") auto
  show ?case
  proof (cases k)
    case 0
    have "name \<notin> set (take (length row) cols)"
    proof
      assume "name \<in> set (take (length row) cols)"
      then obtain j where j: "j < length row" "take (length row) cols ! j = name"
        using le by (auto simp: in_set_conv_nth)
      then have "(c # cols) ! Suc j = name" by simp
      with "3.prems"(4) 0 j(1) show False by auto
    qed
    from fillIdents_other [OF fill this] show ?thesis
      using "3.prems"(3) 0 by simp
  next
    case (Suc k')
    have "idents' name = Some (row ! k')"
    proof (rule "3.IH" [OF fill])
      show "k' < length row" using "3.prems"(2) Suc by simp
      show "cols ! k' = name" using "3.prems"(3) Suc by simp
      show "\<forall>j. k' < j \<and> j < length row \<longrightarrow> cols ! j \<noteq> name"
      proof (intro allI impI)
        fix j assume "k' < j \<and> j < length row"
        then have "k < Suc j \<and> Suc j < length (val # row)" using Suc by simp
        with "3.prems"(4) have "(c # cols) ! Suc j \<noteq> name" by blast
        then show "cols ! j \<noteq> name" by simp
      qed
    qed
    then show ?thesis using Suc by simp
  qed
qed

lemma identsAfter_snoc:
  "identsAfter cols idents (rows @ [row]) =
     (case identsAfter cols idents rows of
        Inl e \<Rightarrow> Inl e
      | Inr idents' \<Rightarrow> fillIdents cols idents' row)"
  by (induction rows arbitrary: idents) (auto split: sum.splits)

lemma identsAfter_other:
  "identsAfter cols idents rows = Inr idents' \<Longrightarrow> name \<notin> set cols \<Longrightarrow>
   idents' name = idents name"
proof (induction rows arbitrary: idents)
  case Nil
  then show ?case by simp
next
  case (Cons row rows)
  then obtain i1 where 1: "fillIdents cols idents row = Inr i1"
    and 2: "identsAfter cols i1 rows = Inr idents'"
    by (auto split: sum.splits)
  have "name \<notin> set (take (length row) cols)"
    using Cons.prems(2) by (auto dest: in_set_takeD)
  from fillIdents_other [OF 1 this] Cons.IH [OF 2 Cons.prems(2)] show ?case by simp
qed

text \<open>The loop evaluates the predicate of the last row in the map \<open>identsAfter\<close> gives.\<close>

lemma whereLoop_snoc:
  "whereLoop p cols idents (rows @ [row]) acc =
     (case whereLoop p cols idents rows acc of
        Inl e \<Rightarrow> Inl e
      | Inr acc' \<Rightarrow>
          (case identsAfter cols idents (rows @ [row]) of
             Inl e \<Rightarrow> Inl e
           | Inr idents' \<Rightarrow>
               (case evalExpr p idents' of
                  Inl e \<Rightarrow> Inl e
                | Inr result \<Rightarrow> Inr (if stringToBool result then acc' @ [row] else acc'))))"
proof (induction rows arbitrary: idents acc)
  case Nil
  then show ?case by (simp split: sum.splits)
next
  case (Cons r rows)
  show ?case
  proof (cases "fillIdents cols idents r")
    case (Inl e)
    then show ?thesis by simp
  next
    case (Inr i1)
    show ?thesis
    proof (cases "evalExpr p i1")
      case (Inl e)
      with Inr show ?thesis by simp
    next
      case res: (Inr result)
      have ia: "identsAfter cols idents ((r # rows) @ [row]) = identsAfter cols i1 (rows @ [row])"
        using Inr by simp
      have wl: "whereLoop p cols idents ((r # rows) @ [row]) acc =
          whereLoop p cols i1 (rows @ [row]) (if stringToBool result then acc @ [r] else acc)"
        using Inr res by simp
      have wl2: "whereLoop p cols idents (r # rows) acc =
          whereLoop p cols i1 rows (if stringToBool result then acc @ [r] else acc)"
        using Inr res by simp
      show ?thesis
        unfolding wl wl2 ia by (rule Cons.IH)
    qed
  qed
qed

subsection \<open>The \<open>where\<close> loop on a table with one cell per column in every row\<close>

lemma rect_absorb:
  assumes "length row = length cols" and "dom m \<subseteq> set cols"
  shows "fillIdents cols (whereIdents ++ m) row
           = Inr (whereIdents ++ map_of (rev (zip cols row)))"
    and "fillIdents cols whereIdents row = Inr (whereIdents ++ map_of (rev (zip cols row)))"
    and "dom (map_of (rev (zip cols row))) \<subseteq> set cols"
proof -
  let ?M = "map_of (rev (zip cols row))"
  have dom: "dom ?M = set cols"
    using assms(1) by (simp add: dom_map_of_conv_image_fst flip: set_map)
  have "m ++ ?M = ?M"
  proof (rule ext)
    fix x show "(m ++ ?M) x = ?M x"
    proof (cases "?M x")
      case None
      then have "x \<notin> dom ?M" by (simp add: domIff)
      then have "x \<notin> set cols" using dom by simp
      then have "x \<notin> dom m" using assms(2) by blast
      then have "m x = None" by (simp add: domIff)
      with None show ?thesis by (simp add: map_add_def)
    next
      case (Some v)
      then show ?thesis by (simp add: map_add_def)
    qed
  qed
  moreover have "(whereIdents ++ m) ++ ?M = whereIdents ++ (m ++ ?M)"
    by (rule map_add_assoc [symmetric])
  ultimately have "(whereIdents ++ m) ++ ?M = whereIdents ++ ?M"
    by simp
  then show "fillIdents cols (whereIdents ++ m) row = Inr (whereIdents ++ ?M)"
    using assms(1) by (simp add: fillIdents_closed)
  show "fillIdents cols whereIdents row = Inr (whereIdents ++ ?M)"
    using assms(1) by (simp add: fillIdents_closed)
  show "dom ?M \<subseteq> set cols" using dom by simp
qed

lemma whereLoop_rect_ok:
  assumes "\<forall>row\<in>set rows. length row = length cols"
    and "dom m \<subseteq> set cols"
    and "\<forall>row\<in>set rows. \<not> isl (rowResult p cols row)"
  shows "whereLoop p cols (whereIdents ++ m) rows acc
           = Inr (acc @ filter (rowMatches p cols) rows)"
  using assms
proof (induction rows arbitrary: m acc)
  case Nil
  then show ?case by simp
next
  case (Cons row rows)
  let ?M = "map_of (rev (zip cols row))"
  have len: "length row = length cols" using Cons.prems(1) by simp
  note abs = rect_absorb [OF len Cons.prems(2)]
  from Cons.prems(3) have "\<not> isl (rowResult p cols row)" by simp
  then obtain v where v: "evalExpr p (whereIdents ++ ?M) = Inr v"
    by (cases "evalExpr p (whereIdents ++ ?M)") (auto simp: rowResult_def abs(2))
  have match: "rowMatches p cols row = stringToBool v"
    by (simp add: rowMatches_def rowResult_def abs(2) v)
  have rest: "whereLoop p cols (whereIdents ++ ?M) rows acc'
           = Inr (acc' @ filter (rowMatches p cols) rows)" for acc'
    using Cons.IH [of ?M acc'] Cons.prems(1,3) abs(3) by simp
  show ?case
    by (simp add: abs(1) v rest match)
qed

lemma whereLoop_rect_fail:
  assumes "\<forall>row\<in>set rows. length row = length cols"
    and "dom m \<subseteq> set cols"
    and "\<exists>row\<in>set rows. isl (rowResult p cols row)"
  shows "isl (whereLoop p cols (whereIdents ++ m) rows acc)"
  using assms
proof (induction rows arbitrary: m acc)
  case Nil
  then show ?case by simp
next
  case (Cons row rows)
  let ?M = "map_of (rev (zip cols row))"
  have len: "length row = length cols" using Cons.prems(1) by simp
  note abs = rect_absorb [OF len Cons.prems(2)]
  show ?case
  proof (cases "evalExpr p (whereIdents ++ ?M)")
    case (Inl e)
    then show ?thesis by (simp add: abs(1))
  next
    case (Inr v)
    then have "\<not> isl (rowResult p cols row)"
      by (simp add: rowResult_def abs(2))
    with Cons.prems(3) have ex: "\<exists>row\<in>set rows. isl (rowResult p cols row)" by auto
    have "isl (whereLoop p cols (whereIdents ++ ?M) rows acc')" for acc'
      using Cons.IH [of ?M acc'] Cons.prems(1) abs(3) ex by simp
    then show ?thesis by (simp add: abs(1) Inr)
  qed
qed

subsection \<open>Errors of evaluated subexpressions\<close>

lemma evaluated_error:
  "y \<in> set (evaluatedIn x idents) \<Longrightarrow> evalExpr y idents = Inl e \<Longrightarrow> evalExpr x idents = Inl e"
  "y \<in> set (evaluatedVals a ys idents) \<Longrightarrow> evalExpr y idents = Inl e \<Longrightarrow>
     evalIn a ys idents = Inl e"
  "y \<in> set (evaluatedArgs as idents) \<Longrightarrow> evalExpr y idents = Inl e \<Longrightarrow>
     evalArgs as idents acc = Inl e"
proof (induction x idents and a ys idents and as idents arbitrary: and and acc
    rule: evaluatedIn_evaluatedVals_evaluatedArgs.induct)
  case (5 x op y' idents)
  then show ?case
    by (cases "evalExpr x idents") (auto split: if_splits)
next
  case (6 x vals idents)
  then show ?case
    by (cases "evalExpr x idents") auto
next
  case (7 func args idents)
  then show ?case
    by (cases "evalFuncs (IdentName func)") auto
next
  case (10 a y' ys idents)
  then show ?case
    by (cases "evalExpr y' idents") (auto split: if_splits)
next
  case (12 a as idents)
  then show ?case
    by (cases "evalExpr a idents") auto
qed auto

subsection \<open>Replacing a bound identifier by its value\<close>

lemma evalExpr_substIdent:
  "idents name = Some v \<Longrightarrow> evalExpr (substIdent name v x) idents = evalExpr x idents"
  "idents name = Some v \<Longrightarrow> evalIn a (map (substIdent name v) ys) idents = evalIn a ys idents"
  "idents name = Some v \<Longrightarrow>
     evalArgs (map (substIdent name v) as) idents acc = evalArgs as idents acc"
proof (induction x idents and a ys idents and as idents acc
    rule: evalExpr_evalIn_evalArgs.induct)
  case (5 x op y idents)
  then show ?case
    by (cases "evalExpr x idents") auto
next
  case (6 x vals idents)
  then show ?case
    by (cases "evalExpr x idents") auto
next
  case (7 func args idents)
  then show ?case
    by (cases "evalFuncs (IdentName func)") auto
next
  case (10 a y ys idents)
  then show ?case
    by (cases "evalExpr y idents") auto
next
  case (12 a as idents args)
  then show ?case
    by (cases "evalExpr a idents") auto
qed auto

lemma whereLoop_substIdent:
  "idents name = Some v \<Longrightarrow> name \<notin> set cols \<Longrightarrow>
   whereLoop (substIdent name v p) cols idents rows acc = whereLoop p cols idents rows acc"
proof (induction rows arbitrary: idents acc)
  case Nil
  then show ?case by simp
next
  case (Cons row rows)
  show ?case
  proof (cases "fillIdents cols idents row")
    case (Inl e)
    then show ?thesis by simp
  next
    case (Inr idents')
    have "name \<notin> set (take (length row) cols)"
      using Cons.prems(2) by (auto dest: in_set_takeD)
    from fillIdents_other [OF Inr this] Cons.prems(1) have b: "idents' name = Some v" by simp
    have e: "evalExpr (substIdent name v p) idents' = evalExpr p idents'"
      using b by (rule evalExpr_substIdent(1) [of idents' name v p])
    show ?thesis
    proof (cases "evalExpr p idents'")
      case (Inl err)
      with Inr e show ?thesis by simp
    next
      case res: (Inr result)
      have "whereLoop (substIdent name v p) cols idents' rows acc'
          = whereLoop p cols idents' rows acc'" for acc'
        using b Cons.prems(2) by (rule Cons.IH [of idents' acc'])
      with Inr e res show ?thesis by simp
    qed
  qed
qed

subsection \<open>A predicate whose value is the same for every row\<close>

lemma whereLoop_const:
  assumes "\<And>idents. evalExpr p idents = Inr c"
  shows "whereLoop p cols idents rows acc =
     (if list_all (\<lambda>row. length row \<le> length cols) rows
      then Inr (acc @ (if stringToBool c then rows else []))
      else Inl PanicIndexOutOfRange)"
proof (induction rows arbitrary: idents acc)
  case Nil
  then show ?case by simp
next
  case (Cons row rows)
  show ?case
  proof (cases "length row \<le> length cols")
    case True
    then show ?thesis
      by (simp add: fillIdents_closed assms Cons.IH)
  next
    case False
    then show ?thesis
      by (simp add: fillIdents_too_long)
  qed
qed

subsection \<open>The first failing argument of a call and the first failing value of \<open>in\<close>\<close>

lemma evalArgs_first_error:
  "list_all (\<lambda>b. \<not> isl (evalExpr b idents)) pre \<Longrightarrow> evalExpr sub idents = Inl e \<Longrightarrow>
   evalArgs (pre @ sub # post) idents acc = Inl e"
proof (induction pre arbitrary: acc)
  case Nil
  then show ?case by simp
next
  case (Cons b pre)
  then show ?case
    by (cases "evalExpr b idents") auto
qed

lemma evalIn_first_error:
  "list_all (\<lambda>b. evalExpr b idents \<noteq> Inr a \<and> \<not> isl (evalExpr b idents)) pre \<Longrightarrow>
   evalExpr sub idents = Inl e \<Longrightarrow>
   evalIn a (pre @ sub # post) idents = Inl e"
proof (induction pre)
  case Nil
  then show ?case by simp
next
  case (Cons b pre)
  then show ?case
    by (cases "evalExpr b idents") auto
qed

section \<open>Properties of the pipeline operators\<close>

subsection \<open>The \<open>where\<close> operator\<close>

text \<open>
  Claim C1, amended. For an input table in which every row has one cell per column:
  if the predicate \<open>P\<close> evaluates without error on every row, \<open>where P\<close> returns a table
  with the Columns of the input and exactly those rows, in their original relative
  order, for which \<open>P\<close> evaluates to a truthy string (nonempty and not \<open>"0"\<close>); if \<open>P\<close>
  fails on some row, the operator returns an error and no table.
\<close>

theorem where_filters_rows:
  assumes "\<forall>row\<in>set (Data t). length row = length (Columns t)"
  shows "((\<forall>row\<in>set (Data t). \<not> isl (rowResult P (Columns t) row)) \<longrightarrow>
            evalOperator t (WhereOperator P) =
              Inr \<lparr>Name = '''', Columns = Columns t,
                   Data = filter (rowMatches P (Columns t)) (Data t)\<rparr>)
       \<and> ((\<exists>row\<in>set (Data t). isl (rowResult P (Columns t) row)) \<longrightarrow>
            isl (evalOperator t (WhereOperator P)))"
proof -
  have start: "whereIdents = whereIdents ++ Map.empty" by simp
  have dom: "dom (Map.empty :: string \<rightharpoonup> string) \<subseteq> set (Columns t)" by simp
  have ok: "whereLoop P (Columns t) whereIdents (Data t) [] =
              Inr ([] @ filter (rowMatches P (Columns t)) (Data t))"
    if "\<forall>row\<in>set (Data t). \<not> isl (rowResult P (Columns t) row)"
    using whereLoop_rect_ok [OF assms dom that, of "[]"] by simp
  have bad: "isl (whereLoop P (Columns t) whereIdents (Data t) [])"
    if "\<exists>row\<in>set (Data t). isl (rowResult P (Columns t) row)"
    using whereLoop_rect_fail [OF assms dom that, of "[]"] by simp
  show ?thesis
  proof (intro conjI impI)
    assume "\<forall>row\<in>set (Data t). \<not> isl (rowResult P (Columns t) row)"
    from ok [OF this] show "evalOperator t (WhereOperator P) =
              Inr \<lparr>Name = '''', Columns = Columns t,
                   Data = filter (rowMatches P (Columns t)) (Data t)\<rparr>"
      by simp
  next
    assume "\<exists>row\<in>set (Data t). isl (rowResult P (Columns t) row)"
    from bad [OF this] show "isl (evalOperator t (WhereOperator P))"
      by (cases "whereLoop P (Columns t) whereIdents (Data t) []") simp_all
  qed
qed

theorem where_filters_rows_witness:
  "list_all (\<lambda>row. length row = length [''a'', ''b''])
      [[''1'', ''2''], [''3'', ''0''], [''5'', ''4'']]
   \<and> list_all (\<lambda>row. \<not> isl (rowResult (QualifiedIdent [Ident ''b'' False]) [''a'', ''b''] row))
      [[''1'', ''2''], [''3'', ''0''], [''5'', ''4'']]
   \<and> evalOperator \<lparr>Name = ''T'', Columns = [''a'', ''b''],
        Data = [[''1'', ''2''], [''3'', ''0''], [''5'', ''4'']]\<rparr>
        (WhereOperator (QualifiedIdent [Ident ''b'' False]))
      = Inr \<lparr>Name = '''', Columns = [''a'', ''b''],
             Data = [[''1'', ''2''], [''5'', ''4'']]\<rparr>
   \<and> eval (TabularExpr (TableRef (Ident ''T'' False))
         [WhereOperator (QualifiedIdent [Ident ''b'' False]),
          TakeOperator (BasicLit TokenNumber ''5'')])
        (tableMap [\<lparr>Name = ''T'', Columns = [''a'', ''b''],
           Data = [[''1'', ''2''], [''3'', ''0''], [''5'', ''4'']]\<rparr>])
      = Inr \<lparr>Name = '''', Columns = [''a'', ''b''],
             Data = [[''1'', ''2''], [''5'', ''4'']]\<rparr>"
proof -
  let ?T = "\<lparr>Name = ''T'', Columns = [''a'', ''b''],
        Data = [[''1'', ''2''], [''3'', ''0''], [''5'', ''4'']]\<rparr>"
  let ?P = "QualifiedIdent [Ident ''b'' False]"
  have rect: "\<forall>row\<in>set (Data ?T). length row = length (Columns ?T)" by simp
  have ok: "\<forall>row\<in>set [[''1'', ''2''], [''3'', ''0''], [''5'', ''4'']].
        \<not> isl (rowResult ?P [''a'', ''b''] row)"
    by (simp add: rowResult_def whereIdents_def)
  have "evalOperator ?T (WhereOperator ?P) =
          Inr \<lparr>Name = '''', Columns = Columns ?T,
               Data = filter (rowMatches ?P (Columns ?T)) (Data ?T)\<rparr>"
    using where_filters_rows [OF rect, of ?P] ok by simp
  then have w: "evalOperator ?T (WhereOperator ?P) =
      Inr \<lparr>Name = '''', Columns = [''a'', ''b''], Data = [[''1'', ''2''], [''5'', ''4'']]\<rparr>"
    by (simp add: rowMatches_def rowResult_def whereIdents_def stringToBool_def)
  have a: "Atoi ''5'' = Inr 5"
    by (simp add: Atoi_def ParseInt_def ParseUint_def isDigit_def digitVal_def cutoff_def
        maxUint64_def)
  have e: "eval (TabularExpr (TableRef (Ident ''T'' False))
         [WhereOperator ?P, TakeOperator (BasicLit TokenNumber ''5'')]) (tableMap [?T])
      = Inr \<lparr>Name = '''', Columns = [''a'', ''b''], Data = [[''1'', ''2''], [''5'', ''4'']]\<rparr>"
    using w by (simp add: tableMap_def a)
  have rect': "list_all (\<lambda>row. length row = length [''a'', ''b''])
      [[''1'', ''2''], [''3'', ''0''], [''5'', ''4'']]"
    by simp
  have ok': "list_all (\<lambda>row. \<not> isl (rowResult ?P [''a'', ''b''] row))
      [[''1'', ''2''], [''3'', ''0''], [''5'', ''4'']]"
    using ok by simp
  from rect' ok' w e show ?thesis by blast
qed

theorem where_error_counterexample:
  "rowMatches (BinaryExpr
       (BinaryExpr (QualifiedIdent [Ident ''a'' False]) TokenEq (BasicLit TokenString ''1''))
       TokenOr (QualifiedIdent [Ident ''zzz'' False])) [''a''] [''1'']
   \<and> evalOperator \<lparr>Name = ''T'', Columns = [''a''], Data = [[''1''], [''2'']]\<rparr>
       (WhereOperator (BinaryExpr
          (BinaryExpr (QualifiedIdent [Ident ''a'' False]) TokenEq (BasicLit TokenString ''1''))
          TokenOr (QualifiedIdent [Ident ''zzz'' False])))
     = Inl (UnrecognizedIdentifier ''zzz'')
   \<and> rowResult (QualifiedIdent [Ident ''b'' False]) [''a'', ''b''] [''3'']
     = Inl (UnrecognizedIdentifier ''b'')
   \<and> evalOperator \<lparr>Name = ''T'', Columns = [''a'', ''b''], Data = [[''1'', ''2''], [''3'']]\<rparr>
       (WhereOperator (QualifiedIdent [Ident ''b'' False]))
     = Inr \<lparr>Name = '''', Columns = [''a'', ''b''], Data = [[''1'', ''2''], [''3'']]\<rparr>"
  by (simp add: rowMatches_def rowResult_def whereIdents_def stringToBool_def boolToString_def)

subsection \<open>The identifiers \<open>true\<close>, \<open>false\<close> and \<open>null\<close>\<close>

text \<open>
  Claim C3, amended. Inside a \<open>where\<close> predicate over a table with no column named
  \<open>true\<close> (respectively \<open>false\<close>, \<open>null\<close>), the bare identifier \<open>true\<close> (\<open>false\<close>,
  \<open>null\<close>) evaluates to \<open>"1"\<close> (\<open>"0"\<close>, \<open>""\<close>) for every row, whether it is quoted or
  not. The bindings exist only there: a column of that name replaces the binding, and the
  row count of \<open>take\<close> is evaluated without them.

  The theorem says it of the operator: for such a table, \<open>where P\<close> gives what it gives
  when every occurrence of the identifier in \<open>P\<close>, at any depth, is replaced by the
  literal; \<open>where name == w\<close> keeps every row if \<open>w\<close> is that value and no row otherwise
  (it fails only on a row with more cells than columns); and the identifier has that
  value in the identifier map of every row.
\<close>

theorem builtin_identifiers_in_where:
  assumes "(name, v) \<in> {(''true'', ''1''), (''false'', ''0''), (''null'', '''')}"
    and "name \<notin> set (Columns t)"
  shows "evalOperator t (WhereOperator P) = evalOperator t (WhereOperator (substIdent name v P))
       \<and> evalOperator t
            (WhereOperator (BinaryExpr (QualifiedIdent [Ident name q]) TokenEq (BasicLit kd w)))
           = (if list_all (\<lambda>row. length row \<le> length (Columns t)) (Data t)
              then Inr \<lparr>Name = '''', Columns = Columns t,
                        Data = (if v = w then Data t else [])\<rparr>
              else Inl PanicIndexOutOfRange)
       \<and> (identsAfter (Columns t) whereIdents rows = Inr idents \<longrightarrow>
            evalExpr (QualifiedIdent [Ident name q]) idents = Inr v)"
proof -
  from assms(1) have b: "whereIdents name = Some v"
    by (auto simp: whereIdents_def)
  have loop: "whereLoop (substIdent name v p) (Columns t) whereIdents (Data t) []
      = whereLoop p (Columns t) whereIdents (Data t) []" for p
    using b assms(2) by (rule whereLoop_substIdent)
  have 1: "evalOperator t (WhereOperator p) = evalOperator t (WhereOperator (substIdent name v p))"
    for p
    by (simp add: loop)
  let ?test = "BinaryExpr (QualifiedIdent [Ident name q]) TokenEq (BasicLit kd w)"
  let ?lit = "BinaryExpr (BasicLit TokenString v) TokenEq (BasicLit kd w)"
  have s: "substIdent name v ?test = ?lit" by simp
  have c: "evalExpr ?lit i = Inr (boolToString (v = w))" for i by simp
  have "whereLoop ?lit (Columns t) whereIdents (Data t) [] =
     (if list_all (\<lambda>row. length row \<le> length (Columns t)) (Data t)
      then Inr ([] @ (if stringToBool (boolToString (v = w)) then Data t else []))
      else Inl PanicIndexOutOfRange)"
    using c by (rule whereLoop_const)
  then have "evalOperator t (WhereOperator ?lit)
           = (if list_all (\<lambda>row. length row \<le> length (Columns t)) (Data t)
              then Inr \<lparr>Name = '''', Columns = Columns t,
                        Data = (if v = w then Data t else [])\<rparr>
              else Inl PanicIndexOutOfRange)"
    by (simp add: stringToBool_def boolToString_def)
  with 1 [of ?test] s have 2: "evalOperator t (WhereOperator ?test)
           = (if list_all (\<lambda>row. length row \<le> length (Columns t)) (Data t)
              then Inr \<lparr>Name = '''', Columns = Columns t,
                        Data = (if v = w then Data t else [])\<rparr>
              else Inl PanicIndexOutOfRange)"
    by simp
  have 3: "evalExpr (QualifiedIdent [Ident name q]) idents = Inr v"
    if "identsAfter (Columns t) whereIdents rows = Inr idents"
    using identsAfter_other [OF that assms(2)] b by simp
  from 1 [of P] 2 3 show ?thesis by blast
qed

theorem builtin_identifiers_in_where_witness:
  "(''true'', ''1'') \<in> {(''true'', ''1''), (''false'', ''0''), (''null'', '''')}
   \<and> ''true'' \<notin> set [''a'', ''b'']
   \<and> substIdent ''true'' ''1''
        (BinaryExpr (QualifiedIdent [Ident ''b'' False]) TokenNE
           (UnaryExpr TokenPlus (ParenExpr (QualifiedIdent [Ident ''true'' True]))))
      = BinaryExpr (QualifiedIdent [Ident ''b'' False]) TokenNE
           (UnaryExpr TokenPlus (ParenExpr (BasicLit TokenString ''1'')))
   \<and> evalOperator \<lparr>Name = ''T'', Columns = [''a'', ''b''],
          Data = [[''1'', ''2''], [''3'', ''1'']]\<rparr>
        (WhereOperator (BinaryExpr (QualifiedIdent [Ident ''b'' False]) TokenNE
           (UnaryExpr TokenPlus (ParenExpr (QualifiedIdent [Ident ''true'' True])))))
      = Inr \<lparr>Name = '''', Columns = [''a'', ''b''], Data = [[''1'', ''2'']]\<rparr>
   \<and> evalOperator \<lparr>Name = ''T'', Columns = [''a'', ''b''],
          Data = [[''1'', ''2''], [''3'', ''1'']]\<rparr>
        (WhereOperator (BinaryExpr (QualifiedIdent [Ident ''true'' True]) TokenEq
           (BasicLit TokenString ''1'')))
      = Inr \<lparr>Name = '''', Columns = [''a'', ''b''],
             Data = [[''1'', ''2''], [''3'', ''1'']]\<rparr>
   \<and> evalOperator \<lparr>Name = ''T'', Columns = [''a'', ''b''],
          Data = [[''1'', ''2''], [''3'', ''1'']]\<rparr>
        (WhereOperator (BinaryExpr (QualifiedIdent [Ident ''null'' False]) TokenEq
           (BasicLit TokenString ''0'')))
      = Inr \<lparr>Name = '''', Columns = [''a'', ''b''], Data = []\<rparr>
   \<and> evalOperator \<lparr>Name = ''T'', Columns = [''a'', ''b''],
          Data = [[''1'', ''2''], [''3'', ''1'']]\<rparr>
        (WhereOperator (BinaryExpr (QualifiedIdent [Ident ''false'' False]) TokenEq
           (BasicLit TokenString ''0'')))
      = Inr \<lparr>Name = '''', Columns = [''a'', ''b''],
             Data = [[''1'', ''2''], [''3'', ''1'']]\<rparr>"
proof -
  let ?T = "\<lparr>Name = ''T'', Columns = [''a'', ''b''], Data = [[''1'', ''2''], [''3'', ''1'']]\<rparr>"
  let ?P = "BinaryExpr (QualifiedIdent [Ident ''b'' False]) TokenNE
           (UnaryExpr TokenPlus (ParenExpr (QualifiedIdent [Ident ''true'' True])))"
  let ?P' = "BinaryExpr (QualifiedIdent [Ident ''b'' False]) TokenNE
           (UnaryExpr TokenPlus (ParenExpr (BasicLit TokenString ''1'')))"
  have m1: "(''true'', ''1'') \<in> {(''true'', ''1''), (''false'', ''0''), (''null'', '''')}"
    by simp
  have m2: "(''null'', '''') \<in> {(''true'', ''1''), (''false'', ''0''), (''null'', '''')}"
    by simp
  have m3: "(''false'', ''0'') \<in> {(''true'', ''1''), (''false'', ''0''), (''null'', '''')}"
    by simp
  have n1: "''true'' \<notin> set (Columns ?T)" by simp
  have n2: "''null'' \<notin> set (Columns ?T)" by simp
  have n3: "''false'' \<notin> set (Columns ?T)" by simp
  have n: "''true'' \<notin> set [''a'', ''b'']" by simp
  have s: "substIdent ''true'' ''1'' ?P = ?P'" by simp
  have lit: "evalOperator ?T (WhereOperator ?P')
      = Inr \<lparr>Name = '''', Columns = [''a'', ''b''], Data = [[''1'', ''2'']]\<rparr>"
    by (simp add: whereIdents_def stringToBool_def boolToString_def)
  have "evalOperator ?T (WhereOperator ?P)
      = evalOperator ?T (WhereOperator (substIdent ''true'' ''1'' ?P))"
    by (rule builtin_identifiers_in_where [OF m1 n1, THEN conjunct1])
  with s lit have a: "evalOperator ?T (WhereOperator ?P)
      = Inr \<lparr>Name = '''', Columns = [''a'', ''b''], Data = [[''1'', ''2'']]\<rparr>"
    by simp
  have b: "evalOperator ?T (WhereOperator (BinaryExpr (QualifiedIdent [Ident ''true'' True]) TokenEq
           (BasicLit TokenString ''1'')))
      = Inr \<lparr>Name = '''', Columns = [''a'', ''b''],
             Data = [[''1'', ''2''], [''3'', ''1'']]\<rparr>"
    using builtin_identifiers_in_where [OF m1 n1, THEN conjunct2, THEN conjunct1,
        of True TokenString "''1''"]
    by simp
  have c: "evalOperator ?T (WhereOperator (BinaryExpr (QualifiedIdent [Ident ''null'' False]) TokenEq
           (BasicLit TokenString ''0'')))
      = Inr \<lparr>Name = '''', Columns = [''a'', ''b''], Data = []\<rparr>"
    using builtin_identifiers_in_where [OF m2 n2, THEN conjunct2, THEN conjunct1,
        of False TokenString "''0''"]
    by simp
  have d: "evalOperator ?T (WhereOperator (BinaryExpr (QualifiedIdent [Ident ''false'' False]) TokenEq
           (BasicLit TokenString ''0'')))
      = Inr \<lparr>Name = '''', Columns = [''a'', ''b''],
             Data = [[''1'', ''2''], [''3'', ''1'']]\<rparr>"
    using builtin_identifiers_in_where [OF m3 n3, THEN conjunct2, THEN conjunct1,
        of False TokenString "''0''"]
    by simp
  show ?thesis
    by (rule conjI [OF m1 conjI [OF n conjI [OF s conjI [OF a conjI [OF b conjI [OF c d]]]]]])
qed

theorem builtin_identifiers_counterexample:
  "evalOperator \<lparr>Name = ''T'', Columns = [''true''], Data = [[''0'']]\<rparr>
     (TakeOperator (QualifiedIdent [Ident ''true'' False]))
     = Inl (UnrecognizedIdentifier ''true'')
   \<and> evalOperator \<lparr>Name = ''T'', Columns = [''true''], Data = [[''0'']]\<rparr>
       (WhereOperator (QualifiedIdent [Ident ''true'' False]))
     = Inr \<lparr>Name = '''', Columns = [''true''], Data = []\<rparr>"
  by (simp add: whereIdents_def stringToBool_def)

text \<open>
  Claim C9. If the column at index \<open>k\<close> is named \<open>name\<close> (for instance \<open>true\<close>, \<open>false\<close>
  or \<open>null\<close>), the current row has a cell for it and no later column with a cell has the
  same name, then in the \<open>where\<close> predicate of that row the identifier \<open>name\<close> evaluates
  to the row's cell \<open>row ! k\<close>, whatever the seeded bindings and the earlier rows were:
  the bindings are seeded once and overwritten by each row's cells.

  The theorem says it of the loop and of the operator. The loop decides a row by
  evaluating the predicate in the map built up to that row, where the identifier, at
  any depth of the predicate, can be replaced by a literal of the row's cell, and
  where the identifier alone evaluates to that cell. On a table with one cell per
  column in every row, \<open>where name == w\<close> returns exactly the rows whose cell of that
  column is \<open>w\<close>.
\<close>

theorem column_shadows_builtin:
  assumes "cols ! k = name"
  shows "(k < length row \<and> (\<forall>j. k < j \<and> j < length row \<longrightarrow> cols ! j \<noteq> name) \<longrightarrow>
            whereLoop P cols whereIdents (rows @ [row]) acc =
              (case whereLoop P cols whereIdents rows acc of
                 Inl e \<Rightarrow> Inl e
               | Inr acc' \<Rightarrow>
                   (case identsAfter cols whereIdents (rows @ [row]) of
                      Inl e \<Rightarrow> Inl e
                    | Inr idents \<Rightarrow>
                        (case evalExpr (substIdent name (row ! k) P) idents of
                           Inl e \<Rightarrow> Inl e
                         | Inr result \<Rightarrow>
                             Inr (if stringToBool result then acc' @ [row] else acc'))))
            \<and> (identsAfter cols whereIdents (rows @ [row]) = Inr idents \<longrightarrow>
                 evalExpr (QualifiedIdent [Ident name q]) idents = Inr (row ! k)))
       \<and> (Columns t = cols \<and> k < length cols
            \<and> (\<forall>j. k < j \<and> j < length cols \<longrightarrow> cols ! j \<noteq> name)
            \<and> list_all (\<lambda>r. length r = length cols) (Data t) \<longrightarrow>
            evalOperator t
              (WhereOperator (BinaryExpr (QualifiedIdent [Ident name q]) TokenEq (BasicLit kd w)))
            = Inr \<lparr>Name = '''', Columns = cols, Data = filter (\<lambda>r. r ! k = w) (Data t)\<rparr>)"
proof (intro conjI impI)
  assume h: "k < length row \<and> (\<forall>j. k < j \<and> j < length row \<longrightarrow> cols ! j \<noteq> name)"
  have cell: "idents name = Some (row ! k)"
    if "identsAfter cols whereIdents (rows @ [row]) = Inr idents" for idents
  proof -
    from that obtain i1 where "fillIdents cols i1 row = Inr idents"
      by (auto simp: identsAfter_snoc split: sum.splits)
    from fillIdents_cell [OF this _ assms] h show ?thesis by blast
  qed
  show "whereLoop P cols whereIdents (rows @ [row]) acc =
              (case whereLoop P cols whereIdents rows acc of
                 Inl e \<Rightarrow> Inl e
               | Inr acc' \<Rightarrow>
                   (case identsAfter cols whereIdents (rows @ [row]) of
                      Inl e \<Rightarrow> Inl e
                    | Inr idents \<Rightarrow>
                        (case evalExpr (substIdent name (row ! k) P) idents of
                           Inl e \<Rightarrow> Inl e
                         | Inr result \<Rightarrow>
                             Inr (if stringToBool result then acc' @ [row] else acc'))))"
  proof (cases "identsAfter cols whereIdents (rows @ [row])")
    case (Inl e)
    then show ?thesis
      by (cases "whereLoop P cols whereIdents rows acc") (simp_all add: whereLoop_snoc)
  next
    case (Inr idents)
    have "evalExpr (substIdent name (row ! k) P) idents = evalExpr P idents"
      using cell [OF Inr] by (rule evalExpr_substIdent(1) [of idents name "row ! k" P])
    with Inr show ?thesis
      by (cases "whereLoop P cols whereIdents rows acc") (simp_all add: whereLoop_snoc)
  qed
  show "evalExpr (QualifiedIdent [Ident name q]) idents = Inr (row ! k)"
    if "identsAfter cols whereIdents (rows @ [row]) = Inr idents"
    using cell [OF that] by simp
next
  assume h: "Columns t = cols \<and> k < length cols
            \<and> (\<forall>j. k < j \<and> j < length cols \<longrightarrow> cols ! j \<noteq> name)
            \<and> list_all (\<lambda>r. length r = length cols) (Data t)"
  let ?test = "BinaryExpr (QualifiedIdent [Ident name q]) TokenEq (BasicLit kd w)"
  have rect: "\<forall>row\<in>set (Data t). length row = length cols"
    using h by (simp add: list_all_iff)
  have res: "rowResult ?test cols r = Inr (boolToString (r ! k = w))"
    if "r \<in> set (Data t)" for r
  proof -
    from that rect have len: "length r = length cols" by simp
    have dom: "dom (Map.empty :: string \<rightharpoonup> string) \<subseteq> set cols" by simp
    note fill = rect_absorb(2) [OF len dom]
    have "(whereIdents ++ map_of (rev (zip cols r))) name = Some (r ! k)"
      using fillIdents_cell [OF fill _ assms] h len by simp
    then show ?thesis
      by (simp add: rowResult_def fill)
  qed
  have ok: "\<forall>row\<in>set (Data t). \<not> isl (rowResult ?test cols row)"
    using res by simp
  have match: "rowMatches ?test cols r = (r ! k = w)" if "r \<in> set (Data t)" for r
    using res [OF that] by (simp add: rowMatches_def stringToBool_def boolToString_def)
  have f: "filter (rowMatches ?test cols) (Data t) = filter (\<lambda>r. r ! k = w) (Data t)"
    using match by (auto intro: filter_cong)
  have dom: "dom (Map.empty :: string \<rightharpoonup> string) \<subseteq> set cols" by simp
  have "whereLoop ?test cols (whereIdents ++ Map.empty) (Data t) []
      = Inr ([] @ filter (rowMatches ?test cols) (Data t))"
    by (rule whereLoop_rect_ok [OF rect dom ok])
  then have "whereLoop ?test cols whereIdents (Data t) [] = Inr (filter (\<lambda>r. r ! k = w) (Data t))"
    using f by simp
  then show "evalOperator t (WhereOperator ?test)
      = Inr \<lparr>Name = '''', Columns = cols, Data = filter (\<lambda>r. r ! k = w) (Data t)\<rparr>"
    using h by simp
qed

theorem column_shadows_builtin_witness:
  "[''id'', ''true''] ! 1 = ''true''
   \<and> (1::nat) < length [''2'', ''yes'']
   \<and> whereLoop (UnaryExpr TokenPlus (ParenExpr (QualifiedIdent [Ident ''true'' False])))
        [''id'', ''true''] whereIdents ([[''1'', ''0'']] @ [[''2'', ''yes'']]) []
      = Inr [[''2'', ''yes'']]
   \<and> identsAfter [''id'', ''true''] whereIdents ([[''1'', ''0'']] @ [[''2'', ''yes'']])
      = Inr (whereIdents(''id'' \<mapsto> ''1'', ''true'' \<mapsto> ''0'', ''id'' \<mapsto> ''2'', ''true'' \<mapsto> ''yes''))
   \<and> evalExpr (QualifiedIdent [Ident ''true'' False])
        (whereIdents(''id'' \<mapsto> ''1'', ''true'' \<mapsto> ''0'', ''id'' \<mapsto> ''2'', ''true'' \<mapsto> ''yes''))
      = Inr ''yes''
   \<and> [''id'', ''null''] ! 1 = ''null''
   \<and> list_all (\<lambda>r. length r = length [''id'', ''null'']) [[''1'', ''x''], [''2'', '''']]
   \<and> evalOperator \<lparr>Name = ''T'', Columns = [''id'', ''null''],
          Data = [[''1'', ''x''], [''2'', '''']]\<rparr>
        (WhereOperator (BinaryExpr (QualifiedIdent [Ident ''null'' False]) TokenEq
           (BasicLit TokenString ''x'')))
      = Inr \<lparr>Name = '''', Columns = [''id'', ''null''], Data = [[''1'', ''x'']]\<rparr>
   \<and> [''false'', ''n''] ! 0 = ''false''
   \<and> evalOperator \<lparr>Name = ''T'', Columns = [''false'', ''n''],
          Data = [[''1'', ''a''], [''0'', ''b'']]\<rparr>
        (WhereOperator (BinaryExpr (QualifiedIdent [Ident ''false'' True]) TokenEq
           (BasicLit TokenNumber ''1'')))
      = Inr \<lparr>Name = '''', Columns = [''false'', ''n''], Data = [[''1'', ''a'']]\<rparr>"
proof -
  let ?P = "UnaryExpr TokenPlus (ParenExpr (QualifiedIdent [Ident ''true'' False]))"
  let ?I = "whereIdents(''id'' \<mapsto> ''1'', ''true'' \<mapsto> ''0'', ''id'' \<mapsto> ''2'', ''true'' \<mapsto> ''yes'')"
  have c1: "[''id'', ''true''] ! 1 = ''true''" by simp
  have l1: "(1::nat) < length [''2'', ''yes'']" by simp
  have h1: "(1::nat) < length [''2'', ''yes'']
      \<and> (\<forall>j. 1 < j \<and> j < length [''2'', ''yes''] \<longrightarrow> [''id'', ''true''] ! j \<noteq> ''true'')"
    by simp
  note loop = column_shadows_builtin [where cols = "[''id'', ''true'']" and k = 1
      and name = "''true''" and row = "[''2'', ''yes'']" and rows = "[[''1'', ''0'']]"
      and acc = "[]" and P = ?P and q = False and idents = ?I,
      OF c1, THEN conjunct1, THEN mp, OF h1]
  have ia: "identsAfter [''id'', ''true''] whereIdents ([[''1'', ''0'']] @ [[''2'', ''yes'']])
      = Inr ?I"
    by simp
  have "whereLoop ?P [''id'', ''true''] whereIdents ([[''1'', ''0'']] @ [[''2'', ''yes'']]) [] =
      (case whereLoop ?P [''id'', ''true''] whereIdents [[''1'', ''0'']] [] of
         Inl e \<Rightarrow> Inl e
       | Inr acc' \<Rightarrow>
           (case identsAfter [''id'', ''true''] whereIdents ([[''1'', ''0'']] @ [[''2'', ''yes'']]) of
              Inl e \<Rightarrow> Inl e
            | Inr idents \<Rightarrow>
                (case evalExpr (substIdent ''true'' ([''2'', ''yes''] ! 1) ?P) idents of
                   Inl e \<Rightarrow> Inl e
                 | Inr result \<Rightarrow>
                     Inr (if stringToBool result then acc' @ [[''2'', ''yes'']] else acc'))))"
    by (rule loop [THEN conjunct1])
  also have "\<dots> = Inr [[''2'', ''yes'']]"
    by (simp add: whereIdents_def stringToBool_def)
  finally have a: "whereLoop ?P [''id'', ''true''] whereIdents
      ([[''1'', ''0'']] @ [[''2'', ''yes'']]) [] = Inr [[''2'', ''yes'']]" .
  have "evalExpr (QualifiedIdent [Ident ''true'' False]) ?I = Inr ([''2'', ''yes''] ! 1)"
    by (rule loop [THEN conjunct2, THEN mp, OF ia])
  then have b: "evalExpr (QualifiedIdent [Ident ''true'' False]) ?I = Inr ''yes''"
    by simp
  let ?T = "\<lparr>Name = ''T'', Columns = [''id'', ''null''], Data = [[''1'', ''x''], [''2'', '''']]\<rparr>"
  have c2: "[''id'', ''null''] ! 1 = ''null''" by simp
  have r2: "list_all (\<lambda>r. length r = length [''id'', ''null'']) [[''1'', ''x''], [''2'', '''']]"
    by simp
  have h2: "Columns ?T = [''id'', ''null''] \<and> 1 < length [''id'', ''null'']
      \<and> (\<forall>j. 1 < j \<and> j < length [''id'', ''null''] \<longrightarrow> [''id'', ''null''] ! j \<noteq> ''null'')
      \<and> list_all (\<lambda>r. length r = length [''id'', ''null'']) (Data ?T)"
    by simp
  have "evalOperator ?T (WhereOperator (BinaryExpr (QualifiedIdent [Ident ''null'' False]) TokenEq
           (BasicLit TokenString ''x'')))
      = Inr \<lparr>Name = '''', Columns = [''id'', ''null''],
             Data = filter (\<lambda>r. r ! 1 = ''x'') (Data ?T)\<rparr>"
    by (rule column_shadows_builtin [where cols = "[''id'', ''null'']" and k = 1
          and name = "''null''" and t = ?T and q = False and kd = TokenString and w = "''x''",
          OF c2, THEN conjunct2, THEN mp, OF h2])
  then have c: "evalOperator ?T (WhereOperator (BinaryExpr (QualifiedIdent [Ident ''null'' False])
           TokenEq (BasicLit TokenString ''x'')))
      = Inr \<lparr>Name = '''', Columns = [''id'', ''null''], Data = [[''1'', ''x'']]\<rparr>"
    by simp
  let ?U = "\<lparr>Name = ''T'', Columns = [''false'', ''n''], Data = [[''1'', ''a''], [''0'', ''b'']]\<rparr>"
  have c3: "[''false'', ''n''] ! 0 = ''false''" by simp
  have h3: "Columns ?U = [''false'', ''n''] \<and> 0 < length [''false'', ''n'']
      \<and> (\<forall>j. 0 < j \<and> j < length [''false'', ''n''] \<longrightarrow> [''false'', ''n''] ! j \<noteq> ''false'')
      \<and> list_all (\<lambda>r. length r = length [''false'', ''n'']) (Data ?U)"
    by (auto simp: less_Suc_eq)
  have "evalOperator ?U (WhereOperator (BinaryExpr (QualifiedIdent [Ident ''false'' True]) TokenEq
           (BasicLit TokenNumber ''1'')))
      = Inr \<lparr>Name = '''', Columns = [''false'', ''n''],
             Data = filter (\<lambda>r. r ! 0 = ''1'') (Data ?U)\<rparr>"
    by (rule column_shadows_builtin [where cols = "[''false'', ''n'']" and k = 0
          and name = "''false''" and t = ?U and q = True and kd = TokenNumber and w = "''1''",
          OF c3, THEN conjunct2, THEN mp, OF h3])
  then have d: "evalOperator ?U (WhereOperator (BinaryExpr (QualifiedIdent [Ident ''false'' True])
           TokenEq (BasicLit TokenNumber ''1'')))
      = Inr \<lparr>Name = '''', Columns = [''false'', ''n''], Data = [[''1'', ''a'']]\<rparr>"
    by simp
  show ?thesis
    by (rule conjI [OF c1 conjI [OF l1 conjI [OF a conjI [OF ia conjI [OF b
          conjI [OF c2 conjI [OF r2 conjI [OF c conjI [OF c3 d]]]]]]]]])
qed

subsection \<open>Unsupported functions and operators\<close>

text \<open>
  Claim C8. The evaluator provides exactly the functions \<open>not\<close> and \<open>strcat\<close>; a call to
  any other name is the error "unknown function". A binary operator other than \<open>==\<close>,
  \<open>!=\<close>, \<open>and\<close>, \<open>or\<close> and a unary operator other than \<open>+\<close> and \<open>-\<close> give an error
  (that of an operand, or "unhandled operator"); a pipeline operator other than
  \<open>count\<close>, \<open>take\<close> and \<open>where\<close> gives an error, and every pipeline that contains one
  fails. An error aborts the evaluation: an error of the row count fails \<open>take\<close>, an
  error within the first rows fails \<open>where\<close> whatever rows follow, and the error of the
  first failing operator is what \<open>Eval\<close> returns, whatever operators follow, in place
  of a table.

  The error of a nested construct is the error of what contains it. One level up: an
  expression that fails makes fail, with the same error, the parenthesis around it,
  every unary operator applied to it, every binary operator and every \<open>in\<close> of which
  it is the left operand, every binary operator of which it is the right operand
  unless the short circuit returns before, every \<open>in\<close> of which it is the first
  failing value when no earlier value is equal, and every call to \<open>not\<close> or \<open>strcat\<close>
  of which it is the first failing argument. At any depth: the error of a subexpression
  that is evaluated is the error of the whole expression, of the \<open>take\<close> whose row
  count contains it, and of the \<open>where\<close> whose predicate contains it, for the first
  row on which it fails.
\<close>

theorem unsupported_constructs_fail:
  "dom evalFuncs = {''not'', ''strcat''}
   \<and> (name \<notin> {''not'', ''strcat''} \<longrightarrow>
        evalExpr (CallExpr (Ident name q) args) idents = Inl (UnknownFunction name))
   \<and> (bop \<notin> {TokenEq, TokenNE, TokenAnd, TokenOr} \<longrightarrow>
        evalExpr (BinaryExpr x bop y) idents =
          (case evalExpr x idents of
             Inl e \<Rightarrow> Inl e
           | Inr a \<Rightarrow> (case evalExpr y idents of
                         Inl e \<Rightarrow> Inl e
                       | Inr b \<Rightarrow> Inl (UnhandledBinaryOperator bop))))
   \<and> (uop \<notin> {TokenPlus, TokenMinus} \<longrightarrow>
        evalExpr (UnaryExpr uop x) idents =
          (case evalExpr x idents of
             Inl e \<Rightarrow> Inl e
           | Inr a \<Rightarrow> Inl (UnhandledUnaryOperator uop)))
   \<and> (\<not> supportedOperator oper \<longrightarrow> evalOperator cur oper = Inl UnhandledOperator)
   \<and> (\<not> supportedOperator oper \<longrightarrow> oper \<in> set ops \<longrightarrow>
        isl (eval (TabularExpr src ops) tables))
   \<and> (evalExpr n Map.empty = Inl err \<longrightarrow> evalOperator cur (TakeOperator n) = Inl err)
   \<and> (whereLoop p (Columns cur) whereIdents (take k (Data cur)) [] = Inl err \<longrightarrow>
        evalOperator cur (WhereOperator p) = Inl err)
   \<and> (Parse source = Inr (TabularExpr (TableRef tab) (opsBefore @ failing # opsAfter)) \<longrightarrow>
        tableMap tabs (IdentName tab) = Some cur \<longrightarrow>
        evalOperators cur opsBefore = Inr mid \<longrightarrow>
        evalOperator mid failing = Inl err \<longrightarrow>
        Eval Parse source tabs = Inl err)
   \<and> (evalExpr sub idents = Inl err \<longrightarrow>
        evalExpr (ParenExpr sub) idents = Inl err
        \<and> evalExpr (UnaryExpr uop sub) idents = Inl err
        \<and> evalExpr (BinaryExpr sub bop y) idents = Inl err
        \<and> evalExpr (InExpr sub vals) idents = Inl err
        \<and> (evalExpr x idents = Inr a \<and> \<not> (bop = TokenAnd \<and> \<not> stringToBool a)
              \<and> \<not> (bop = TokenOr \<and> stringToBool a) \<longrightarrow>
            evalExpr (BinaryExpr x bop sub) idents = Inl err)
        \<and> (evalExpr x idents = Inr a
              \<and> list_all (\<lambda>b. evalExpr b idents \<noteq> Inr a \<and> \<not> isl (evalExpr b idents)) pre \<longrightarrow>
            evalExpr (InExpr x (pre @ sub # post)) idents = Inl err)
        \<and> (name \<in> {''not'', ''strcat''}
              \<and> list_all (\<lambda>b. \<not> isl (evalExpr b idents)) pre \<longrightarrow>
            evalExpr (CallExpr (Ident name q) (pre @ sub # post)) idents = Inl err))
   \<and> (sub \<in> set (evaluatedIn whole idents) \<longrightarrow> evalExpr sub idents = Inl err \<longrightarrow>
        evalExpr whole idents = Inl err)
   \<and> (sub \<in> set (n # evaluatedIn n Map.empty) \<longrightarrow> evalExpr sub Map.empty = Inl err \<longrightarrow>
        evalOperator cur (TakeOperator n) = Inl err)
   \<and> (Data cur = rows @ row # rest
         \<and> whereLoop p (Columns cur) whereIdents rows [] = Inr acc
         \<and> identsAfter (Columns cur) whereIdents (rows @ [row]) = Inr idents
         \<and> sub \<in> set (p # evaluatedIn p idents)
         \<and> evalExpr sub idents = Inl err \<longrightarrow>
        evalOperator cur (WhereOperator p) = Inl err)"
proof (intro conjI impI)
  show "dom evalFuncs = {''not'', ''strcat''}"
    by (auto simp: evalFuncs_def split: if_splits)
next
  assume "name \<notin> {''not'', ''strcat''}"
  then show "evalExpr (CallExpr (Ident name q) args) idents = Inl (UnknownFunction name)"
    by (simp add: evalFuncs_def)
next
  assume "bop \<notin> {TokenEq, TokenNE, TokenAnd, TokenOr}"
  then show "evalExpr (BinaryExpr x bop y) idents =
          (case evalExpr x idents of
             Inl e \<Rightarrow> Inl e
           | Inr a \<Rightarrow> (case evalExpr y idents of
                         Inl e \<Rightarrow> Inl e
                       | Inr b \<Rightarrow> Inl (UnhandledBinaryOperator bop)))"
    by (simp split: sum.splits)
next
  assume "uop \<notin> {TokenPlus, TokenMinus}"
  then show "evalExpr (UnaryExpr uop x) idents =
          (case evalExpr x idents of
             Inl e \<Rightarrow> Inl e
           | Inr a \<Rightarrow> Inl (UnhandledUnaryOperator uop))"
    by (simp split: sum.splits)
next
  assume "\<not> supportedOperator oper"
  then show "evalOperator cur oper = Inl UnhandledOperator"
    by (rule evalOperator_unsupported)
next
  assume u: "\<not> supportedOperator oper" and m: "oper \<in> set ops"
  show "isl (eval (TabularExpr src ops) tables)"
  proof (cases src)
    case (TableRef table)
    then show ?thesis
      using evalOperators_unsupported [OF m u]
      by (cases "tables (IdentName table)") auto
  next
    case OtherSource
    then show ?thesis by simp
  qed
next
  assume "evalExpr n Map.empty = Inl err"
  then show "evalOperator cur (TakeOperator n) = Inl err" by simp
next
  assume "whereLoop p (Columns cur) whereIdents (take k (Data cur)) [] = Inl err"
  from whereLoop_error_append [OF this, of "drop k (Data cur)"]
  show "evalOperator cur (WhereOperator p) = Inl err" by simp
next
  assume "Parse source = Inr (TabularExpr (TableRef tab) (opsBefore @ failing # opsAfter))"
    and "tableMap tabs (IdentName tab) = Some cur"
    and "evalOperators cur opsBefore = Inr mid"
    and "evalOperator mid failing = Inl err"
  then show "Eval Parse source tabs = Inl err"
    by (simp add: Eval_def evalOperators_append)
next
  assume "evalExpr sub idents = Inl err"
  then show "evalExpr (ParenExpr sub) idents = Inl err" by simp
next
  assume "evalExpr sub idents = Inl err"
  then show "evalExpr (UnaryExpr uop sub) idents = Inl err" by simp
next
  assume "evalExpr sub idents = Inl err"
  then show "evalExpr (BinaryExpr sub bop y) idents = Inl err" by simp
next
  assume "evalExpr sub idents = Inl err"
  then show "evalExpr (InExpr sub vals) idents = Inl err" by simp
next
  assume "evalExpr sub idents = Inl err"
    and "evalExpr x idents = Inr a \<and> \<not> (bop = TokenAnd \<and> \<not> stringToBool a)
              \<and> \<not> (bop = TokenOr \<and> stringToBool a)"
  then show "evalExpr (BinaryExpr x bop sub) idents = Inl err" by auto
next
  assume s: "evalExpr sub idents = Inl err"
    and h: "evalExpr x idents = Inr a
              \<and> list_all (\<lambda>b. evalExpr b idents \<noteq> Inr a \<and> \<not> isl (evalExpr b idents)) pre"
  from h have "evalIn a (pre @ sub # post) idents = Inl err"
    by (intro evalIn_first_error [OF _ s]) simp
  with h show "evalExpr (InExpr x (pre @ sub # post)) idents = Inl err" by simp
next
  assume s: "evalExpr sub idents = Inl err"
    and h: "name \<in> {''not'', ''strcat''}
              \<and> list_all (\<lambda>b. \<not> isl (evalExpr b idents)) pre"
  from h have "evalArgs (pre @ sub # post) idents [] = Inl err"
    by (intro evalArgs_first_error [OF _ s]) simp
  with h show "evalExpr (CallExpr (Ident name q) (pre @ sub # post)) idents = Inl err"
    by (auto simp: evalFuncs_def)
next
  assume "sub \<in> set (evaluatedIn whole idents)" and "evalExpr sub idents = Inl err"
  then show "evalExpr whole idents = Inl err"
    by (rule evaluated_error(1))
next
  assume m: "sub \<in> set (n # evaluatedIn n Map.empty)"
    and s: "evalExpr sub Map.empty = Inl err"
  have "evalExpr n Map.empty = Inl err"
  proof (cases "sub = n")
    case True
    with s show ?thesis by simp
  next
    case False
    with m have "sub \<in> set (evaluatedIn n Map.empty)" by simp
    then show ?thesis using s by (rule evaluated_error(1))
  qed
  then show "evalOperator cur (TakeOperator n) = Inl err" by simp
next
  assume h: "Data cur = rows @ row # rest
         \<and> whereLoop p (Columns cur) whereIdents rows [] = Inr acc
         \<and> identsAfter (Columns cur) whereIdents (rows @ [row]) = Inr idents
         \<and> sub \<in> set (p # evaluatedIn p idents)
         \<and> evalExpr sub idents = Inl err"
  have e: "evalExpr p idents = Inl err"
  proof (cases "sub = p")
    case True
    with h show ?thesis by simp
  next
    case False
    with h have "sub \<in> set (evaluatedIn p idents)" by simp
    then show ?thesis using h by (intro evaluated_error(1) [of sub p idents err]) simp_all
  qed
  have "whereLoop p (Columns cur) whereIdents (rows @ [row]) [] = Inl err"
    using h e by (simp add: whereLoop_snoc)
  from whereLoop_error_append [OF this, of rest] h
  show "evalOperator cur (WhereOperator p) = Inl err" by simp
qed

theorem unsupported_constructs_fail_witness:
  "''tolower'' \<notin> {''not'', ''strcat''}
   \<and> evalExpr (CallExpr (Ident ''tolower'' False) [BasicLit TokenString ''A'']) Map.empty
       = Inl (UnknownFunction ''tolower'')
   \<and> TokenLT \<notin> {TokenEq, TokenNE, TokenAnd, TokenOr}
   \<and> evalExpr (BinaryExpr (BasicLit TokenNumber ''1'') TokenLT (BasicLit TokenNumber ''2''))
        Map.empty = Inl (UnhandledBinaryOperator TokenLT)
   \<and> TokenNot \<notin> {TokenPlus, TokenMinus}
   \<and> evalExpr (UnaryExpr TokenNot (BasicLit TokenNumber ''1'')) Map.empty
       = Inl (UnhandledUnaryOperator TokenNot)
   \<and> \<not> supportedOperator (SortOperator [])
   \<and> evalOperator \<lparr>Name = ''T'', Columns = [''a''], Data = [[''1''], [''2'']]\<rparr> (SortOperator [])
       = Inl UnhandledOperator
   \<and> SortOperator [] \<in> set [CountOperator, SortOperator []]
   \<and> isl (eval (TabularExpr (TableRef (Ident ''T'' False)) [CountOperator, SortOperator []])
        (tableMap [\<lparr>Name = ''T'', Columns = [''a''], Data = [[''1''], [''2'']]\<rparr>]))
   \<and> evalExpr (QualifiedIdent [Ident ''n'' False]) Map.empty = Inl (UnrecognizedIdentifier ''n'')
   \<and> evalOperator \<lparr>Name = ''T'', Columns = [''a''], Data = [[''1''], [''2'']]\<rparr>
        (TakeOperator (QualifiedIdent [Ident ''n'' False])) = Inl (UnrecognizedIdentifier ''n'')
   \<and> whereLoop (CallExpr (Ident ''tolower'' False) [QualifiedIdent [Ident ''a'' False]])
        (Columns \<lparr>Name = ''T'', Columns = [''a''], Data = [[''1''], [''2'']]\<rparr>) whereIdents
        (take 1 (Data \<lparr>Name = ''T'', Columns = [''a''], Data = [[''1''], [''2'']]\<rparr>)) []
       = Inl (UnknownFunction ''tolower'')
   \<and> evalOperator \<lparr>Name = ''T'', Columns = [''a''], Data = [[''1''], [''2'']]\<rparr>
        (WhereOperator (CallExpr (Ident ''tolower'' False) [QualifiedIdent [Ident ''a'' False]]))
       = Inl (UnknownFunction ''tolower'')
   \<and> Eval (\<lambda>s. Inr (TabularExpr (TableRef (Ident ''T'' False))
              ([CountOperator] @ SortOperator [] # [CountOperator])))
        ''T | count | sort by a | count''
        [\<lparr>Name = ''T'', Columns = [''a''], Data = [[''1''], [''2'']]\<rparr>]
       = Inl UnhandledOperator
   \<and> evalExpr (CallExpr (Ident ''strcat'' False)
          ([BasicLit TokenString ''a''] @ UnaryExpr TokenNot (BasicLit TokenNumber ''1'')
             # [BasicLit TokenString ''b''])) Map.empty
       = Inl (UnhandledUnaryOperator TokenNot)
   \<and> evalExpr (BinaryExpr (BasicLit TokenNumber ''1'') TokenEq
          (ParenExpr (CallExpr (Ident ''not'' False)
             [ParenExpr (CallExpr (Ident ''tolower'' False) [BasicLit TokenString ''A''])])))
        Map.empty
       = Inl (UnknownFunction ''tolower'')
   \<and> evalOperator \<lparr>Name = ''T'', Columns = [''a''], Data = [[''1''], [''2'']]\<rparr>
        (TakeOperator (CallExpr (Ident ''strcat'' False)
           [BasicLit TokenNumber ''1'', ParenExpr (QualifiedIdent [Ident ''nosuch'' False])]))
       = Inl (UnrecognizedIdentifier ''nosuch'')
   \<and> evalOperator \<lparr>Name = ''T'', Columns = [''a''], Data = [[''1''], [''2'']]\<rparr>
        (WhereOperator (CallExpr (Ident ''not'' False)
           [ParenExpr (ParenExpr
              (CallExpr (Ident ''tolower'' False) [QualifiedIdent [Ident ''a'' False]]))]))
       = Inl (UnknownFunction ''tolower'')
   \<and> evalOperator \<lparr>Name = ''T'', Columns = [''a''], Data = [[''1''], [''2''], [''3'']]\<rparr>
        (WhereOperator (BinaryExpr
           (BinaryExpr (QualifiedIdent [Ident ''a'' False]) TokenEq (BasicLit TokenNumber ''1''))
           TokenOr
           (CallExpr (Ident ''not'' False)
              [ParenExpr (UnaryExpr TokenNot (QualifiedIdent [Ident ''a'' False]))])))
       = Inl (UnhandledUnaryOperator TokenNot)
   \<and> Eval (\<lambda>s. Inr (TabularExpr (TableRef (Ident ''T'' False))
              ([] @ WhereOperator (CallExpr (Ident ''not'' False)
                 [ParenExpr (ParenExpr
                    (CallExpr (Ident ''tolower'' False) [QualifiedIdent [Ident ''a'' False]]))])
                 # [CountOperator])))
        ''T | where not((tolower(a))) | count''
        [\<lparr>Name = ''T'', Columns = [''a''], Data = [[''1''], [''2'']]\<rparr>]
       = Inl (UnknownFunction ''tolower'')"
proof -
  let ?T = "\<lparr>Name = ''T'', Columns = [''a''], Data = [[''1''], [''2'']]\<rparr>"
  let ?call = "CallExpr (Ident ''tolower'' False) [QualifiedIdent [Ident ''a'' False]]"
  let ?Parse = "\<lambda>s :: string. (Inr (TabularExpr (TableRef (Ident ''T'' False))
              ([CountOperator] @ SortOperator [] # [CountOperator])) :: error + TabularExpr)"
  note inst = unsupported_constructs_fail [where name = "''tolower''" and q = False
      and args = "[BasicLit TokenString ''A'']" and idents = Map.empty
      and bop = TokenLT and x = "BasicLit TokenNumber ''1''" and y = "BasicLit TokenNumber ''2''"
      and uop = TokenNot and oper = "SortOperator []" and cur = ?T
      and ops = "[CountOperator, SortOperator []]" and src = "TableRef (Ident ''T'' False)"
      and tables = "tableMap [?T]" and n = "QualifiedIdent [Ident ''n'' False]"
      and err = "UnrecognizedIdentifier ''n''"]
  note inst2 = unsupported_constructs_fail [where p = ?call and cur = ?T and k = 1
      and err = "UnknownFunction ''tolower''"]
  note inst3 = unsupported_constructs_fail [where Parse = ?Parse
      and source = "''T | count | sort by a | count''"
      and tab = "Ident ''T'' False" and opsBefore = "[CountOperator]" and failing = "SortOperator []"
      and opsAfter = "[CountOperator]" and tabs = "[?T]" and cur = ?T
      and mid = "\<lparr>Name = '''', Columns = [''count()''], Data = [[''2'']]\<rparr>"
      and err = UnhandledOperator]
  have itoa: "Itoa 2 = ''2''"
    by (simp add: Itoa_def digitChar_def)
  have wl: "whereLoop ?call (Columns ?T) whereIdents (take 1 (Data ?T)) []
       = Inl (UnknownFunction ''tolower'')"
    by (simp add: evalFuncs_def)
  have c1: "evalExpr (CallExpr (Ident ''tolower'' False) [BasicLit TokenString ''A'']) Map.empty
       = Inl (UnknownFunction ''tolower'')"
    using inst by simp
  have c2: "evalExpr (BinaryExpr (BasicLit TokenNumber ''1'') TokenLT (BasicLit TokenNumber ''2''))
        Map.empty = Inl (UnhandledBinaryOperator TokenLT)"
    using inst by simp
  have c3: "evalExpr (UnaryExpr TokenNot (BasicLit TokenNumber ''1'')) Map.empty
       = Inl (UnhandledUnaryOperator TokenNot)"
    using inst by simp
  have c4: "evalOperator ?T (SortOperator []) = Inl UnhandledOperator"
    using inst by simp
  have c5: "isl (eval (TabularExpr (TableRef (Ident ''T'' False)) [CountOperator, SortOperator []])
        (tableMap [?T]))"
    using inst by simp
  have c6: "evalOperator ?T (TakeOperator (QualifiedIdent [Ident ''n'' False]))
       = Inl (UnrecognizedIdentifier ''n'')"
    using inst by simp
  have c7: "evalOperator ?T (WhereOperator ?call) = Inl (UnknownFunction ''tolower'')"
    by (rule inst2 [THEN conjunct2, THEN conjunct2, THEN conjunct2, THEN conjunct2,
          THEN conjunct2, THEN conjunct2, THEN conjunct2, THEN conjunct1, THEN mp, OF wl])
  have c8: "Eval ?Parse ''T | count | sort by a | count'' [?T] = Inl UnhandledOperator"
    using inst3 by (simp add: tableMap_def itoa)
  note tail = conjunct2 [THEN conjunct2, THEN conjunct2, THEN conjunct2, THEN conjunct2,
      THEN conjunct2, THEN conjunct2, THEN conjunct2, THEN conjunct2]
  let ?notop = "UnaryExpr TokenNot (BasicLit TokenNumber ''1'')"
  have s1: "evalExpr ?notop Map.empty = Inl (UnhandledUnaryOperator TokenNot)"
    by simp
  have h1: "''strcat'' \<in> {''not'', ''strcat''}
      \<and> list_all (\<lambda>b. \<not> isl (evalExpr b Map.empty)) [BasicLit TokenString ''a'']"
    by simp
  have d1: "evalExpr (CallExpr (Ident ''strcat'' False)
          ([BasicLit TokenString ''a''] @ ?notop # [BasicLit TokenString ''b''])) Map.empty
       = Inl (UnhandledUnaryOperator TokenNot)"
    by (rule unsupported_constructs_fail [where sub = ?notop and idents = Map.empty
          and err = "UnhandledUnaryOperator TokenNot" and name = "''strcat''" and q = False
          and pre = "[BasicLit TokenString ''a'']" and post = "[BasicLit TokenString ''b'']",
          THEN tail, THEN conjunct1, THEN mp, OF s1,
          THEN conjunct2, THEN conjunct2, THEN conjunct2, THEN conjunct2, THEN conjunct2,
          THEN conjunct2, THEN mp, OF h1])
  let ?low = "CallExpr (Ident ''tolower'' False) [BasicLit TokenString ''A'']"
  let ?whole = "BinaryExpr (BasicLit TokenNumber ''1'') TokenEq
          (ParenExpr (CallExpr (Ident ''not'' False) [ParenExpr ?low]))"
  have m2: "?low \<in> set (evaluatedIn ?whole Map.empty)"
    by (simp add: evalFuncs_def)
  have d2: "evalExpr ?whole Map.empty = Inl (UnknownFunction ''tolower'')"
    by (rule unsupported_constructs_fail [where sub = ?low and whole = ?whole
          and idents = Map.empty and err = "UnknownFunction ''tolower''",
          THEN tail, THEN conjunct2, THEN conjunct1, THEN mp, OF m2, THEN mp, OF c1])
  let ?nosuch = "QualifiedIdent [Ident ''nosuch'' False]"
  let ?count = "CallExpr (Ident ''strcat'' False) [BasicLit TokenNumber ''1'', ParenExpr ?nosuch]"
  have m3: "?nosuch \<in> set (?count # evaluatedIn ?count Map.empty)"
    by (simp add: evalFuncs_def)
  have s3: "evalExpr ?nosuch Map.empty = Inl (UnrecognizedIdentifier ''nosuch'')"
    by simp
  have d3: "evalOperator ?T (TakeOperator ?count) = Inl (UnrecognizedIdentifier ''nosuch'')"
    by (rule unsupported_constructs_fail [where sub = ?nosuch and n = ?count and cur = ?T
          and err = "UnrecognizedIdentifier ''nosuch''",
          THEN tail, THEN conjunct2, THEN conjunct2, THEN conjunct1, THEN mp, OF m3,
          THEN mp, OF s3])
  let ?nested = "CallExpr (Ident ''not'' False) [ParenExpr (ParenExpr ?call)]"
  let ?I = "whereIdents(''a'' \<mapsto> ''1'')"
  have h4: "Data ?T = [] @ [''1''] # [[''2'']]
         \<and> whereLoop ?nested (Columns ?T) whereIdents [] [] = Inr []
         \<and> identsAfter (Columns ?T) whereIdents ([] @ [[''1'']]) = Inr ?I
         \<and> ?call \<in> set (?nested # evaluatedIn ?nested ?I)
         \<and> evalExpr ?call ?I = Inl (UnknownFunction ''tolower'')"
    by (simp add: evalFuncs_def)
  have d4: "evalOperator ?T (WhereOperator ?nested) = Inl (UnknownFunction ''tolower'')"
    by (rule unsupported_constructs_fail [where sub = ?call and p = ?nested and cur = ?T
          and rows = "[]" and row = "[''1'']" and rest = "[[''2'']]" and acc = "[]"
          and idents = ?I and err = "UnknownFunction ''tolower''",
          THEN tail, THEN conjunct2, THEN conjunct2, THEN conjunct2, THEN mp, OF h4])
  let ?U = "\<lparr>Name = ''T'', Columns = [''a''], Data = [[''1''], [''2''], [''3'']]\<rparr>"
  let ?bad = "UnaryExpr TokenNot (QualifiedIdent [Ident ''a'' False])"
  let ?either = "BinaryExpr
           (BinaryExpr (QualifiedIdent [Ident ''a'' False]) TokenEq (BasicLit TokenNumber ''1''))
           TokenOr (CallExpr (Ident ''not'' False) [ParenExpr ?bad])"
  let ?J = "whereIdents(''a'' \<mapsto> ''1'', ''a'' \<mapsto> ''2'')"
  have h5: "Data ?U = [[''1'']] @ [''2''] # [[''3'']]
         \<and> whereLoop ?either (Columns ?U) whereIdents [[''1'']] [] = Inr [[''1'']]
         \<and> identsAfter (Columns ?U) whereIdents ([[''1'']] @ [[''2'']]) = Inr ?J
         \<and> ?bad \<in> set (?either # evaluatedIn ?either ?J)
         \<and> evalExpr ?bad ?J = Inl (UnhandledUnaryOperator TokenNot)"
    by (simp add: evalFuncs_def whereIdents_def stringToBool_def boolToString_def)
  have d5: "evalOperator ?U (WhereOperator ?either) = Inl (UnhandledUnaryOperator TokenNot)"
    by (rule unsupported_constructs_fail [where sub = ?bad and p = ?either and cur = ?U
          and rows = "[[''1'']]" and row = "[''2'']" and rest = "[[''3'']]" and acc = "[[''1'']]"
          and idents = ?J and err = "UnhandledUnaryOperator TokenNot",
          THEN tail, THEN conjunct2, THEN conjunct2, THEN conjunct2, THEN mp, OF h5])
  let ?Parse' = "\<lambda>s :: string. (Inr (TabularExpr (TableRef (Ident ''T'' False))
              ([] @ WhereOperator ?nested # [CountOperator])) :: error + TabularExpr)"
  have p6: "?Parse' ''T | where not((tolower(a))) | count''
      = Inr (TabularExpr (TableRef (Ident ''T'' False))
              ([] @ WhereOperator ?nested # [CountOperator]))"
    by simp
  have t6: "tableMap [?T] (IdentName (Ident ''T'' False)) = Some ?T"
    by (simp add: tableMap_def)
  have o6: "evalOperators ?T [] = Inr ?T"
    by simp
  have d6: "Eval ?Parse' ''T | where not((tolower(a))) | count'' [?T]
      = Inl (UnknownFunction ''tolower'')"
    by (rule unsupported_constructs_fail [where Parse = ?Parse'
          and source = "''T | where not((tolower(a))) | count''"
          and tab = "Ident ''T'' False" and opsBefore = "[]" and failing = "WhereOperator ?nested"
          and opsAfter = "[CountOperator]" and tabs = "[?T]" and cur = ?T and mid = ?T
          and err = "UnknownFunction ''tolower''",
          THEN conjunct2, THEN conjunct2, THEN conjunct2, THEN conjunct2, THEN conjunct2,
          THEN conjunct2, THEN conjunct2, THEN conjunct2, THEN conjunct1,
          THEN mp, OF p6, THEN mp, OF t6, THEN mp, OF o6, THEN mp, OF d4])
  have old: "''tolower'' \<notin> {''not'', ''strcat''}
      \<and> TokenLT \<notin> {TokenEq, TokenNE, TokenAnd, TokenOr}
      \<and> TokenNot \<notin> {TokenPlus, TokenMinus}
      \<and> \<not> supportedOperator (SortOperator [])
      \<and> SortOperator [] \<in> set [CountOperator, SortOperator []]
      \<and> evalExpr (QualifiedIdent [Ident ''n'' False]) Map.empty
          = Inl (UnrecognizedIdentifier ''n'')"
    by simp
  from old wl c1 c2 c3 c4 c5 c6 c7 c8 d1 d2 d3 d4 d5 d6 show ?thesis
    by (intro conjI) (elim conjE, assumption)+
qed

subsection \<open>The row count of \<open>take\<close>\<close>




subsection \<open>\<open>Atoi\<close> and the \<open>take\<close> operator\<close>

lemma digitVal_range: "isDigit c \<Longrightarrow> 0 \<le> digitVal c \<and> digitVal c \<le> 9"
  by (simp add: isDigit_def digitVal_def)

lemma foldl_digits_ge:
  "list_all isDigit ds \<Longrightarrow> 0 \<le> n \<Longrightarrow> n \<le> foldl (\<lambda>n c. n * 10 + digitVal c) n ds"
proof (induction ds arbitrary: n)
  case Nil
  then show ?case by simp
next
  case (Cons c cs)
  then have d: "0 \<le> digitVal c" using digitVal_range by simp
  with Cons.prems have "n \<le> n * 10 + digitVal c" by simp
  moreover have "n * 10 + digitVal c \<le> foldl (\<lambda>n c. n * 10 + digitVal c) (n * 10 + digitVal c) cs"
    using Cons.IH [of "n * 10 + digitVal c"] Cons.prems d by simp
  ultimately show ?case by simp
qed

lemma parseUintLoop_digits:
  "list_all isDigit ds \<Longrightarrow> 0 \<le> n \<Longrightarrow> n \<le> maxUint64 \<Longrightarrow>
   parseUintLoop n ds =
     (if foldl (\<lambda>n c. n * 10 + digitVal c) n ds \<le> maxUint64
      then Inr (foldl (\<lambda>n c. n * 10 + digitVal c) n ds) else Inl AtoiRange)"
proof (induction ds arbitrary: n)
  case Nil
  then show ?case by simp
next
  case (Cons c cs)
  let ?n' = "n * 10 + digitVal c"
  let ?v = "foldl (\<lambda>n c. n * 10 + digitVal c) ?n' cs"
  have c: "isDigit c" and cs: "list_all isDigit cs" using Cons.prems(1) by simp_all
  have d: "0 \<le> digitVal c" using c digitVal_range by simp
  have n': "0 \<le> ?n'" using Cons.prems(2) d by simp
  have ge: "?n' \<le> ?v" by (rule foldl_digits_ge [OF cs n'])
  show ?case
  proof (cases "cutoff \<le> n")
    case True
    then have "maxUint64 < ?n'" using d by (simp add: cutoff_def maxUint64_def)
    with ge have "\<not> ?v \<le> maxUint64" by simp
    with True c show ?thesis by simp
  next
    case False
    show ?thesis
    proof (cases "maxUint64 < ?n'")
      case True
      with ge have "\<not> ?v \<le> maxUint64" by simp
      with True False c show ?thesis by simp
    next
      case big: False
      then have "?n' \<le> maxUint64" by simp
      with False big c Cons.IH [OF cs n'] show ?thesis by simp
    qed
  qed
qed

lemma parseUintLoop_nondigit:
  "\<not> list_all isDigit ds \<Longrightarrow> isl (parseUintLoop n ds)"
  by (induction ds arbitrary: n) auto

lemma ParseUint_digits:
  assumes "ds \<noteq> []" and "list_all isDigit ds"
  shows "ParseUint ds =
     (if digitsValue ds \<le> maxUint64 then Inr (digitsValue ds) else Inl AtoiRange)"
  using assms parseUintLoop_digits [of ds 0]
  by (simp add: ParseUint_def digitsValue_def maxUint64_def)

lemma digitsValue_nonneg: "list_all isDigit ds \<Longrightarrow> 0 \<le> digitsValue ds"
  using foldl_digits_ge [of ds 0] by (simp add: digitsValue_def)

lemma Atoi_decimal:
  assumes "isDecimalInteger s"
  shows "Atoi s =
     (if - (2 ^ 63) \<le> decimalValue s \<and> decimalValue s < 2 ^ 63
      then Inr (decimalValue s) else Inl AtoiRange)"
proof -
  let ?u = "unsignedPart s"
  from assms have ne: "?u \<noteq> []" and dig: "list_all isDigit ?u"
    by (simp_all add: isDecimalInteger_def)
  from ne have s: "s \<noteq> []" by (auto simp: unsignedPart_def)
  have pu: "ParseUint ?u =
     (if digitsValue ?u \<le> maxUint64 then Inr (digitsValue ?u) else Inl AtoiRange)"
    by (rule ParseUint_digits [OF ne dig])
  have v: "0 \<le> digitsValue ?u" by (rule digitsValue_nonneg [OF dig])
  have pi: "ParseInt s =
     (case ParseUint ?u of
        Inl e \<Rightarrow> Inl e
      | Inr un \<Rightarrow>
          (if \<not> hd s = CHR ''-'' \<and> un \<ge> 2 ^ 63 then Inl AtoiRange
           else if hd s = CHR ''-'' \<and> un > 2 ^ 63 then Inl AtoiRange
           else Inr (if hd s = CHR ''-'' then - un else un)))"
    using s by (simp add: ParseInt_def unsignedPart_def Let_def)
  show ?thesis
  proof (cases "hd s = CHR ''-''")
    case True
    then have u: "?u = tl s" and dv: "decimalValue s = - digitsValue ?u"
      using s by (simp_all add: unsignedPart_def decimalValue_def)
    show ?thesis
      using True v by (simp add: Atoi_def pi pu dv maxUint64_def)
  next
    case False
    then have dv: "decimalValue s = digitsValue ?u"
      by (simp add: decimalValue_def)
    show ?thesis
      using False v by (simp add: Atoi_def pi pu dv maxUint64_def)
  qed
qed

lemma Atoi_not_decimal:
  assumes "\<not> isDecimalInteger s"
  shows "isl (Atoi s)"
proof (cases "s = []")
  case True
  then show ?thesis by (simp add: Atoi_def ParseInt_def)
next
  case False
  let ?u = "unsignedPart s"
  have pi: "ParseInt s =
     (case ParseUint ?u of
        Inl e \<Rightarrow> Inl e
      | Inr un \<Rightarrow>
          (if \<not> hd s = CHR ''-'' \<and> un \<ge> 2 ^ 63 then Inl AtoiRange
           else if hd s = CHR ''-'' \<and> un > 2 ^ 63 then Inl AtoiRange
           else Inr (if hd s = CHR ''-'' then - un else un)))"
    using False by (simp add: ParseInt_def unsignedPart_def Let_def)
  have "isl (ParseUint ?u)"
  proof (cases "?u = []")
    case True
    then show ?thesis by (simp add: ParseUint_def)
  next
    case ne: False
    with assms have "\<not> list_all isDigit ?u" by (simp add: isDecimalInteger_def)
    from parseUintLoop_nondigit [OF this] ne show ?thesis by (simp add: ParseUint_def)
  qed
  then show ?thesis
    by (cases "ParseUint ?u") (simp_all add: Atoi_def pi)
qed

text \<open>
  Claim C4, amended. If the row count \<open>N\<close> of \<open>take N\<close> fails to evaluate, its error is
  returned. If it evaluates to the string \<open>s\<close>, the operator returns an error exactly
  when \<open>s\<close> is not the decimal representation of an integer (an optional sign and one
  or more digits), or the integer is negative, or it does not fit the 64-bit \<open>int\<close>
  (it is \<open>2^63\<close> or more); otherwise it succeeds and returns a table with the input's
  Columns and the first \<open>min(N, number of input rows)\<close> rows of the input.
\<close>

theorem take_row_count:
  "(evalExpr N Map.empty = Inl err \<longrightarrow> evalOperator t (TakeOperator N) = Inl err)
   \<and> (evalExpr N Map.empty = Inr s \<longrightarrow>
        (isl (evalOperator t (TakeOperator N)) \<longleftrightarrow>
           \<not> isDecimalInteger s \<or> decimalValue s < 0 \<or> 2 ^ 63 \<le> decimalValue s)
        \<and> (isDecimalInteger s \<and> 0 \<le> decimalValue s \<and> decimalValue s < 2 ^ 63 \<longrightarrow>
             evalOperator t (TakeOperator N) =
               Inr \<lparr>Name = '''', Columns = Columns t,
                    Data = take (min (nat (decimalValue s)) (length (Data t))) (Data t)\<rparr>))"
proof (intro conjI impI)
  assume "evalExpr N Map.empty = Inl err"
  then show "evalOperator t (TakeOperator N) = Inl err" by simp
next
  assume s: "evalExpr N Map.empty = Inr s"
  show "isl (evalOperator t (TakeOperator N)) \<longleftrightarrow>
           \<not> isDecimalInteger s \<or> decimalValue s < 0 \<or> 2 ^ 63 \<le> decimalValue s"
  proof (cases "isDecimalInteger s")
    case True
    show ?thesis
      using True by (simp add: s Atoi_decimal)
  next
    case False
    from Atoi_not_decimal [OF this] obtain e where "Atoi s = Inl e"
      by (cases "Atoi s") auto
    with False show ?thesis by (simp add: s)
  qed
next
  assume s: "evalExpr N Map.empty = Inr s"
    and ok: "isDecimalInteger s \<and> 0 \<le> decimalValue s \<and> decimalValue s < 2 ^ 63"
  then have "Atoi s = Inr (decimalValue s)" by (simp add: Atoi_decimal)
  moreover have "nat (min (decimalValue s) (int (length (Data t))))
      = min (nat (decimalValue s)) (length (Data t))"
    using ok by (simp add: min_def)
  ultimately show "evalOperator t (TakeOperator N) =
               Inr \<lparr>Name = '''', Columns = Columns t,
                    Data = take (min (nat (decimalValue s)) (length (Data t))) (Data t)\<rparr>"
    using ok by (simp add: s)
qed

theorem take_row_count_witness:
  "evalExpr (BasicLit TokenNumber ''2'') Map.empty = Inr ''2''
   \<and> isDecimalInteger ''2'' \<and> decimalValue ''2'' = 2
   \<and> evalOperator \<lparr>Name = ''T'', Columns = [''a''], Data = [[''x''], [''y''], [''z'']]\<rparr>
        (TakeOperator (BasicLit TokenNumber ''2''))
      = Inr \<lparr>Name = '''', Columns = [''a''], Data = [[''x''], [''y'']]\<rparr>
   \<and> evalExpr (BasicLit TokenNumber ''-1'') Map.empty = Inr ''-1''
   \<and> decimalValue ''-1'' < 0
   \<and> isl (evalOperator \<lparr>Name = ''T'', Columns = [''a''], Data = [[''x''], [''y''], [''z'']]\<rparr>
        (TakeOperator (BasicLit TokenNumber ''-1'')))"
proof -
  let ?T = "\<lparr>Name = ''T'', Columns = [''a''], Data = [[''x''], [''y''], [''z'']]\<rparr>"
  have e: "evalExpr (BasicLit TokenNumber ''2'') Map.empty = Inr ''2''" by simp
  have d: "isDecimalInteger ''2''"
    by (simp add: isDecimalInteger_def unsignedPart_def isDigit_def)
  have v: "decimalValue ''2'' = 2"
    by (simp add: decimalValue_def unsignedPart_def digitsValue_def digitVal_def)
  have e': "evalExpr (BasicLit TokenNumber ''-1'') Map.empty = Inr ''-1''" by simp
  have v': "decimalValue ''-1'' < 0"
    by (simp add: decimalValue_def unsignedPart_def digitsValue_def digitVal_def)
  note inst = take_row_count [where N = "BasicLit TokenNumber ''2''" and s = "''2''" and t = ?T]
  note inst' = take_row_count [where N = "BasicLit TokenNumber ''-1''" and s = "''-1''" and t = ?T]
  have r: "evalOperator ?T (TakeOperator (BasicLit TokenNumber ''2''))
      = Inr \<lparr>Name = '''', Columns = [''a''], Data = [[''x''], [''y'']]\<rparr>"
    using inst [THEN conjunct2, THEN mp, OF e, THEN conjunct2] d v by simp
  have r': "isl (evalOperator ?T (TakeOperator (BasicLit TokenNumber ''-1'')))"
    using inst' [THEN conjunct2, THEN mp, OF e', THEN conjunct1] v' by blast
  from e d v r e' v' r' show ?thesis by blast
qed

theorem take_out_of_range_counterexample:
  "evalExpr (BasicLit TokenNumber ''9223372036854775808'') Map.empty
     = Inr ''9223372036854775808''
   \<and> isDecimalInteger ''9223372036854775808''
   \<and> decimalValue ''9223372036854775808'' = 9223372036854775808
   \<and> evalOperator \<lparr>Name = ''T'', Columns = [''a''], Data = [[''x''], [''y''], [''z'']]\<rparr>
        (TakeOperator (BasicLit TokenNumber ''9223372036854775808''))
      = Inl AtoiRange"
  by (simp add: isDecimalInteger_def unsignedPart_def isDigit_def decimalValue_def
      digitsValue_def digitVal_def Atoi_def ParseInt_def ParseUint_def cutoff_def maxUint64_def)

section \<open>The caller's tables are not modified\<close>

subsection \<open>Writes go to fresh addresses only\<close>

text \<open>
  The addresses below \<open>n\<close> are those of the objects that existed when the call began.
  The loop of \<open>where\<close> writes to the new table at \<open>t\<close> and to the backing array of
  its \<open>Data\<close>; the invariant is that both were allocated at or after \<open>n\<close>.
\<close>

lemma readTable_length: "readTable h p = Inr x \<Longrightarrow> p < length h"
  by (cases "p < length h") (simp_all add: readTable_def)

lemma readTable_nth:
  "readTable h p = Inr (name, cols, data) \<Longrightarrow> h ! p = TableObject name cols data"
  by (cases "p < length h"; cases "h ! p") (simp_all add: readTable_def)

lemma readTable_table:
  "p < length h \<Longrightarrow> h ! p = TableObject name cols data \<Longrightarrow>
   readTable h p = Inr (name, cols, data)"
  by (simp add: readTable_def)

lemma appendRow_frame:
  assumes "appendRow h t row = (h', r)"
    and "n \<le> t"
    and "\<And>name cols data. readTable h t = Inr (name, cols, data) \<Longrightarrow> n \<le> sliceArray data"
  shows "take n h' = take n h \<and> length h \<le> length h'
       \<and> (\<forall>name cols data. readTable h' t = Inr (name, cols, data) \<longrightarrow> n \<le> sliceArray data)"
proof (cases "readTable h t")
  case (Inl e)
  with assms(1) have "h' = h" by (simp add: appendRow_def)
  with assms(3) show ?thesis by simp
next
  case (Inr x)
  then obtain name cols data where x: "readTable h t = Inr (name, cols, data)"
    by (cases x) auto
  have t: "t < length h" by (rule readTable_length [OF x])
  have a: "n \<le> sliceArray data" by (rule assms(3) [OF x])
  show ?thesis
  proof (cases "sliceArray data < length h")
    case False
    with assms(1) x have "h' = h" by (simp add: appendRow_def)
    with assms(3) show ?thesis by simp
  next
    case True
    show ?thesis
    proof (cases "h ! sliceArray data")
      case (StringArray ys)
      with assms(1) x True have "h' = h" by (simp add: appendRow_def)
      with assms(3) show ?thesis by simp
    next
      case (TableObject n' c' d')
      with assms(1) x True have "h' = h" by (simp add: appendRow_def)
      with assms(3) show ?thesis by simp
    next
      case (SliceArray xs)
      show ?thesis
      proof (cases "sliceLen data < sliceCap data")
        case spare: True
        let ?d = "Slice (sliceArray data) (sliceOffset data) (sliceLen data + 1) (sliceCap data)"
        from assms(1) x True SliceArray spare
        have h': "h' = h[sliceArray data := SliceArray (xs[sliceOffset data + sliceLen data := row]),
                         t := TableObject name cols ?d]"
          by (simp add: appendRow_def)
        have 1: "take n h' = take n h"
          using a assms(2) by (simp add: h')
        have 2: "length h \<le> length h'" by (simp add: h')
        have "readTable h' t = Inr (name, cols, ?d)"
          using t by (simp add: h' readTable_def)
        then have 3: "\<forall>name cols data. readTable h' t = Inr (name, cols, data) \<longrightarrow>
            n \<le> sliceArray data"
          using a by simp
        from 1 2 3 show ?thesis by simp
      next
        case full: False
        let ?grown = "sliceElems xs data @ [row] @ replicate (sliceCap data) nilSlice"
        let ?d = "Slice (length h) 0 (sliceLen data + 1) (2 * sliceCap data + 1)"
        from assms(1) x True SliceArray full
        have h': "h' = (h @ [SliceArray ?grown])[t := TableObject name cols ?d]"
          by (simp add: appendRow_def alloc_def)
        have nh: "n \<le> length h" using assms(2) t by simp
        have 1: "take n h' = take n h"
          using assms(2) nh by (simp add: h')
        have 2: "length h \<le> length h'" by (simp add: h')
        have "readTable h' t = Inr (name, cols, ?d)"
          using t by (simp add: h' readTable_def)
        then have 3: "\<forall>name cols data. readTable h' t = Inr (name, cols, data) \<longrightarrow>
            n \<le> sliceArray data"
          using nh by simp
        from 1 2 3 show ?thesis by simp
      qed
    qed
  qed
qed

lemma whereLoopH_frame:
  assumes "whereLoopH h p cur data t idents is = (h', r)"
    and "n \<le> t"
    and "\<forall>name cols d. readTable h t = Inr (name, cols, d) \<longrightarrow> n \<le> sliceArray d"
  shows "take n h' = take n h \<and> length h \<le> length h'"
  using assms
proof (induction "is" arbitrary: h idents)
  case Nil
  then show ?case by simp
next
  case (Cons i "is")
  show ?case
  proof (cases "indexSlice h data i")
    case (Inl e)
    with Cons.prems(1) show ?thesis by simp
  next
    case row: (Inr row)
    show ?thesis
    proof (cases "fillIdentsH h cur row idents [0..<sliceLen row]")
      case (Inl e)
      with Cons.prems(1) row show ?thesis by simp
    next
      case ids: (Inr idents')
      show ?thesis
      proof (cases "evalExpr p idents'")
        case (Inl e)
        with Cons.prems(1) row ids show ?thesis by simp
      next
        case res: (Inr result)
        show ?thesis
        proof (cases "stringToBool result")
          case False
          with Cons.prems(1) row ids res
          have "whereLoopH h p cur data t idents' is = (h', r)" by simp
          from Cons.IH [OF this Cons.prems(2,3)] show ?thesis .
        next
          case True
          obtain h1 r1 where ap: "appendRow h t row = (h1, r1)"
            by (cases "appendRow h t row") auto
          from appendRow_frame [OF ap Cons.prems(2)] Cons.prems(3)
          have f1: "take n h1 = take n h" and l1: "length h \<le> length h1"
            and i1: "\<forall>name cols d. readTable h1 t = Inr (name, cols, d) \<longrightarrow> n \<le> sliceArray d"
            by blast+
          show ?thesis
          proof (cases r1)
            case (Inl e)
            with Cons.prems(1) row ids res True ap have "h' = h1" by simp
            with f1 l1 show ?thesis by simp
          next
            case (Inr u)
            with Cons.prems(1) row ids res True ap
            have "whereLoopH h1 p cur data t idents' is = (h', r)" by simp
            from Cons.IH [OF this Cons.prems(2) i1] f1 l1 show ?thesis by simp
          qed
        qed
      qed
    qed
  qed
qed

lemma evalOperatorH_frame:
  assumes "evalOperatorH h cur op = (h', r)" and "n \<le> length h"
  shows "take n h' = take n h \<and> length h \<le> length h'"
proof (cases "supportedOperator op")
  case False
  then have "evalOperatorH h cur op = (h, Inl UnhandledOperator)"
    by (cases op) simp_all
  with assms(1) show ?thesis by simp
next
  case True
  then consider "op = CountOperator" | e where "op = TakeOperator e" | q where "op = WhereOperator q"
    by (cases op) simp_all
  then show ?thesis
  proof cases
    case 1
    with assms show ?thesis
      by (auto simp: alloc_def split: sum.splits prod.splits)
  next
    case 2
    with assms show ?thesis
      by (auto simp: alloc_def Let_def split: sum.splits prod.splits if_splits)
  next
    case 3
    show ?thesis
    proof (cases "readTable h cur")
      case (Inl e)
      with assms(1) 3 show ?thesis by simp
    next
      case (Inr x)
      then obtain name cols data where x: "readTable h cur = Inr (name, cols, data)"
        by (cases x) auto
      let ?h2 = "h @ [SliceArray (replicate (sliceLen data) nilSlice),
                      TableObject '''' cols (Slice (length h) 0 0 (sliceLen data))]"
      let ?t = "Suc (length h)"
      obtain h3 r3 where wl: "whereLoopH ?h2 q cur data ?t whereIdents [0..<sliceLen data] = (h3, r3)"
        by (cases "whereLoopH ?h2 q cur data ?t whereIdents [0..<sliceLen data]") auto
      have nt: "n \<le> ?t" using assms(2) by simp
      have "readTable ?h2 ?t = Inr ('''', cols, Slice (length h) 0 0 (sliceLen data))"
        by (simp add: readTable_def nth_append)
      then have inv: "\<forall>name cols d. readTable ?h2 ?t = Inr (name, cols, d) \<longrightarrow> n \<le> sliceArray d"
        using assms(2) by simp
      from whereLoopH_frame [OF wl nt inv]
      have f: "take n h3 = take n ?h2" and l: "length ?h2 \<le> length h3" by simp_all
      have "h' = h3"
        using assms(1) 3 x wl by (cases r3) (simp_all add: alloc_def)
      with f l assms(2) show ?thesis by simp
    qed
  qed
qed

lemma evalOperatorsH_frame:
  assumes "evalOperatorsH h cur ops = (h', r)" and "n \<le> length h"
  shows "take n h' = take n h \<and> length h \<le> length h'"
  using assms
proof (induction ops arbitrary: h cur)
  case Nil
  then show ?case by simp
next
  case (Cons op ops)
  obtain h1 r1 where op: "evalOperatorH h cur op = (h1, r1)"
    by (cases "evalOperatorH h cur op") auto
  from evalOperatorH_frame [OF op Cons.prems(2)]
  have f1: "take n h1 = take n h" and l1: "length h \<le> length h1" by simp_all
  show ?case
  proof (cases r1)
    case (Inl e)
    with Cons.prems(1) op have "h' = h1" by simp
    with f1 l1 show ?thesis by simp
  next
    case (Inr cur')
    with Cons.prems(1) op have "evalOperatorsH h1 cur' ops = (h', r)" by simp
    from Cons.IH [OF this] Cons.prems(2) l1 f1 show ?thesis by simp
  qed
qed

lemma EvalH_frame:
  assumes "EvalH Parse source h tables = (h', r)"
  shows "take (length h) h' = h \<and> length h \<le> length h'"
proof (cases "Parse source")
  case (Inl e)
  with assms show ?thesis by (simp add: EvalH_def)
next
  case (Inr expr)
  show ?thesis
  proof (cases "tableMapH h Map.empty tables")
    case (Inl e)
    with assms Inr show ?thesis by (simp add: EvalH_def)
  next
    case m: (Inr m)
    with assms Inr have ev: "evalH h expr m = (h', r)" by (simp add: EvalH_def)
    obtain src ops where expr: "expr = TabularExpr src ops" by (cases expr)
    show ?thesis
    proof (cases src)
      case OtherSource
      with ev expr show ?thesis by simp
    next
      case (TableRef table)
      show ?thesis
      proof (cases "m (IdentName table)")
        case None
        with ev expr TableRef show ?thesis by simp
      next
        case (Some cur)
        with ev expr TableRef have "evalOperatorsH h cur ops = (h', r)" by simp
        from evalOperatorsH_frame [OF this, of "length h"] show ?thesis by simp
      qed
    qed
  qed
qed

subsection \<open>A table read through its pointer is the same in an extended heap\<close>

lemma readTable_append:
  "readTable h p = Inr x \<Longrightarrow> readTable (h @ ext) p = Inr x"
  by (cases "p < length h") (simp_all add: readTable_def nth_append)

lemma indexString_append:
  "indexString h s i = Inr x \<Longrightarrow> indexString (h @ ext) s i = Inr x"
  by (cases "sliceArray s < length h")
     (auto simp: indexString_def nth_append split: if_splits)

lemma indexSlice_append:
  "indexSlice h s i = Inr x \<Longrightarrow> indexSlice (h @ ext) s i = Inr x"
  by (cases "sliceArray s < length h")
     (auto simp: indexSlice_def nth_append split: if_splits)

lemma collect_mono:
  assumes "collect f js = Inr xs" and "\<And>i x. f i = Inr x \<Longrightarrow> g i = Inr x"
  shows "collect g js = Inr xs"
  using assms(1)
proof (induction js arbitrary: xs)
  case Nil
  then show ?case by simp
next
  case (Cons i js)
  then obtain x ys where x: "f i = Inr x" and ys: "collect f js = Inr ys" and xs: "xs = x # ys"
    by (auto split: sum.splits)
  from assms(2) [OF x] Cons.IH [OF ys] xs show ?case by simp
qed

lemma sliceStrings_append:
  "sliceStrings h s = Inr xs \<Longrightarrow> sliceStrings (h @ ext) s = Inr xs"
  unfolding sliceStrings_def
  by (erule collect_mono) (rule indexString_append)

lemma sliceRows_append:
  assumes "sliceRows h s = Inr rows"
  shows "sliceRows (h @ ext) s = Inr rows"
  using assms unfolding sliceRows_def
proof (rule collect_mono)
  fix i x
  assume "(case indexSlice h s i of Inl e \<Rightarrow> Inl e | Inr row \<Rightarrow> sliceStrings h row) = Inr x"
  then obtain row where r: "indexSlice h s i = Inr row" and x: "sliceStrings h row = Inr x"
    by (auto split: sum.splits)
  from indexSlice_append [OF r] sliceStrings_append [OF x]
  show "(case indexSlice (h @ ext) s i of Inl e \<Rightarrow> Inl e
         | Inr row \<Rightarrow> sliceStrings (h @ ext) row) = Inr x"
    by simp
qed

lemma tableValue_append:
  assumes "tableValue h p = Inr T"
  shows "tableValue (h @ ext) p = Inr T"
proof -
  from assms obtain name cols data cs rows
    where 1: "readTable h p = Inr (name, cols, data)"
      and 2: "sliceStrings h cols = Inr cs"
      and 3: "sliceRows h data = Inr rows"
      and 4: "T = \<lparr>Name = name, Columns = cs, Data = rows\<rparr>"
    by (auto simp: tableValue_def split: sum.splits)
  from readTable_append [OF 1] sliceStrings_append [OF 2] sliceRows_append [OF 3] 4
  show ?thesis by (simp add: tableValue_def)
qed

subsection \<open>The frame property of \<open>Eval\<close>\<close>

text \<open>
  Claim C7. Whether a call of \<open>Eval\<close> returns a table or an error, every object that
  was in memory before the call is identical after it: the call only allocates and
  writes to what it has allocated. Hence every table that could be read through a
  pointer before the call, each input table in particular, reads the same after it:
  same Name, same Columns, same rows and cells of its Data.
\<close>

theorem Eval_leaves_tables_unchanged:
  assumes "EvalH Parse source h tables = (h', r)"
  shows "take (length h) h' = h
       \<and> (\<forall>p T. tableValue h p = Inr T \<longrightarrow> tableValue h' p = Inr T)"
proof -
  from EvalH_frame [OF assms] have f: "take (length h) h' = h" and l: "length h \<le> length h'"
    by simp_all
  have ext: "h' = h @ drop (length h) h'"
    using f append_take_drop_id [of "length h" h'] by simp
  have "tableValue h' p = Inr T" if "tableValue h p = Inr T" for p T
    using tableValue_append [OF that, of "drop (length h) h'"] ext by simp
  with f show ?thesis by blast
qed

theorem Eval_leaves_tables_unchanged_witness:
  "EvalH (\<lambda>s. Inr (TabularExpr (TableRef (Ident ''T'' False))
       [WhereOperator (QualifiedIdent [Ident ''b'' False]),
        TakeOperator (BasicLit TokenNumber ''5'')]))
     ''T | where b | take 5''
     [StringArray [''a'', ''b''], StringArray [''1'', ''2''], StringArray [''3'', ''0''],
      StringArray [''5'', ''4''],
      SliceArray [Slice 1 0 2 2, Slice 2 0 2 2, Slice 3 0 2 2],
      TableObject ''T'' (Slice 0 0 2 2) (Slice 4 0 3 3)]
     [Some 5]
   = ([StringArray [''a'', ''b''], StringArray [''1'', ''2''], StringArray [''3'', ''0''],
       StringArray [''5'', ''4''],
       SliceArray [Slice 1 0 2 2, Slice 2 0 2 2, Slice 3 0 2 2],
       TableObject ''T'' (Slice 0 0 2 2) (Slice 4 0 3 3),
       SliceArray [Slice 1 0 2 2, Slice 3 0 2 2, Slice 0 0 0 0],
       TableObject '''' (Slice 0 0 2 2) (Slice 6 0 2 3),
       TableObject '''' (Slice 0 0 2 2) (Slice 6 0 2 3)],
      Inr 8)
   \<and> tableValue
       [StringArray [''a'', ''b''], StringArray [''1'', ''2''], StringArray [''3'', ''0''],
        StringArray [''5'', ''4''],
        SliceArray [Slice 1 0 2 2, Slice 2 0 2 2, Slice 3 0 2 2],
        TableObject ''T'' (Slice 0 0 2 2) (Slice 4 0 3 3)] 5
     = Inr \<lparr>Name = ''T'', Columns = [''a'', ''b''],
            Data = [[''1'', ''2''], [''3'', ''0''], [''5'', ''4'']]\<rparr>
   \<and> tableValue
       [StringArray [''a'', ''b''], StringArray [''1'', ''2''], StringArray [''3'', ''0''],
        StringArray [''5'', ''4''],
        SliceArray [Slice 1 0 2 2, Slice 2 0 2 2, Slice 3 0 2 2],
        TableObject ''T'' (Slice 0 0 2 2) (Slice 4 0 3 3),
        SliceArray [Slice 1 0 2 2, Slice 3 0 2 2, Slice 0 0 0 0],
        TableObject '''' (Slice 0 0 2 2) (Slice 6 0 2 3),
        TableObject '''' (Slice 0 0 2 2) (Slice 6 0 2 3)] 5
     = Inr \<lparr>Name = ''T'', Columns = [''a'', ''b''],
            Data = [[''1'', ''2''], [''3'', ''0''], [''5'', ''4'']]\<rparr>
   \<and> tableValue
       [StringArray [''a'', ''b''], StringArray [''1'', ''2''], StringArray [''3'', ''0''],
        StringArray [''5'', ''4''],
        SliceArray [Slice 1 0 2 2, Slice 2 0 2 2, Slice 3 0 2 2],
        TableObject ''T'' (Slice 0 0 2 2) (Slice 4 0 3 3),
        SliceArray [Slice 1 0 2 2, Slice 3 0 2 2, Slice 0 0 0 0],
        TableObject '''' (Slice 0 0 2 2) (Slice 6 0 2 3),
        TableObject '''' (Slice 0 0 2 2) (Slice 6 0 2 3)] 8
     = Inr \<lparr>Name = '''', Columns = [''a'', ''b''],
            Data = [[''1'', ''2''], [''5'', ''4'']]\<rparr>"
proof -
  let ?Parse = "\<lambda>s :: string. (Inr (TabularExpr (TableRef (Ident ''T'' False))
       [WhereOperator (QualifiedIdent [Ident ''b'' False]),
        TakeOperator (BasicLit TokenNumber ''5'')]) :: error + TabularExpr)"
  let ?H0 = "[StringArray [''a'', ''b''], StringArray [''1'', ''2''], StringArray [''3'', ''0''],
      StringArray [''5'', ''4''],
      SliceArray [Slice 1 0 2 2, Slice 2 0 2 2, Slice 3 0 2 2],
      TableObject ''T'' (Slice 0 0 2 2) (Slice 4 0 3 3)]"
  let ?H1 = "[StringArray [''a'', ''b''], StringArray [''1'', ''2''], StringArray [''3'', ''0''],
       StringArray [''5'', ''4''],
       SliceArray [Slice 1 0 2 2, Slice 2 0 2 2, Slice 3 0 2 2],
       TableObject ''T'' (Slice 0 0 2 2) (Slice 4 0 3 3),
       SliceArray [Slice 1 0 2 2, Slice 3 0 2 2, Slice 0 0 0 0],
       TableObject '''' (Slice 0 0 2 2) (Slice 6 0 2 3),
       TableObject '''' (Slice 0 0 2 2) (Slice 6 0 2 3)]"
  let ?T = "\<lparr>Name = ''T'', Columns = [''a'', ''b''],
            Data = [[''1'', ''2''], [''3'', ''0''], [''5'', ''4'']]\<rparr>"
  have run: "EvalH ?Parse ''T | where b | take 5'' ?H0 [Some 5] = (?H1, Inr 8)"
    by code_simp
  have before: "tableValue ?H0 5 = Inr ?T"
    by code_simp
  from Eval_leaves_tables_unchanged [OF run] before
  have after: "tableValue ?H1 5 = Inr ?T"
    by blast
  have result: "tableValue ?H1 8 = Inr \<lparr>Name = '''', Columns = [''a'', ''b''],
            Data = [[''1'', ''2''], [''5'', ''4'']]\<rparr>"
    by code_simp
  show ?thesis
    by (rule conjI [OF run conjI [OF before conjI [OF after result]]])
qed

section \<open>The two models agree\<close>

text \<open>
  On a heap in which the input tables can be read, the evaluator on Go's memory
  returns a pointer to the table that the evaluator on values returns, or the same
  error.
\<close>

subsection \<open>Reading slices\<close>

lemma collect_map: "collect f js = Inr xs \<longleftrightarrow> map f js = map Inr xs"
proof (induction js arbitrary: xs)
  case Nil
  then show ?case by auto
next
  case (Cons i js)
  show ?case
  proof (cases "f i")
    case (Inl e)
    then show ?thesis by (cases xs) auto
  next
    case (Inr x)
    show ?thesis
    proof (cases "collect f js")
      case (Inl e)
      with Cons.IH have "\<And>ys. map f js \<noteq> map Inr ys" by auto
      with Inl Inr show ?thesis by (cases xs) auto
    next
      case ys: (Inr ys)
      with Cons.IH [of ys] have "map f js = map Inr ys" by simp
      moreover have "map f js = map Inr zs \<Longrightarrow> zs = ys" for zs
        using Cons.IH [of zs] ys by simp
      ultimately show ?thesis using Inr ys by (cases xs) auto
    qed
  qed
qed

lemma collect_upt:
  "collect f [0..<n] = Inr xs \<longleftrightarrow> length xs = n \<and> (\<forall>i<n. f i = Inr (xs ! i))"
proof -
  have "map f [0..<n] = map Inr xs \<longleftrightarrow> length xs = n \<and> (\<forall>i<n. f i = Inr (xs ! i))"
    by (auto simp: list_eq_iff_nth_eq)
  then show ?thesis by (simp add: collect_map)
qed

lemma sliceStrings_iff:
  "sliceStrings h s = Inr xs \<longleftrightarrow>
     length xs = sliceLen s \<and> (\<forall>i<sliceLen s. indexString h s i = Inr (xs ! i))"
  by (simp add: sliceStrings_def collect_upt)

lemma sliceRows_iff:
  "sliceRows h s = Inr rows \<longleftrightarrow>
     length rows = sliceLen s \<and>
     (\<forall>i<sliceLen s. \<exists>row. indexSlice h s i = Inr row \<and> sliceStrings h row = Inr (rows ! i))"
proof -
  have "(case indexSlice h s i of Inl e \<Rightarrow> Inl e | Inr row \<Rightarrow> sliceStrings h row) = Inr x
        \<longleftrightarrow> (\<exists>row. indexSlice h s i = Inr row \<and> sliceStrings h row = Inr x)" for i x
    by (cases "indexSlice h s i") auto
  then show ?thesis by (simp add: sliceRows_def collect_upt)
qed

subsection \<open>The inner loop\<close>

lemma fillIdentsH_refines:
  assumes cur: "readTable h cur = Inr (name, cols, data)"
    and cs: "sliceStrings h cols = Inr cs"
    and vals: "sliceStrings h row = Inr vals"
    and j: "j \<le> sliceLen row"
  shows "fillIdentsH h cur row idents [j..<sliceLen row] = fillIdents (drop j cs) idents (drop j vals)"
  using j
proof (induction "sliceLen row - j" arbitrary: j idents)
  case 0
  then have "j = sliceLen row" by simp
  moreover have "length vals = sliceLen row" using vals by (simp add: sliceStrings_iff)
  ultimately show ?case by simp
next
  case (Suc k)
  then have lt: "j < sliceLen row" by simp
  have lv: "length vals = sliceLen row" and v: "indexString h row j = Inr (vals ! j)"
    using vals lt by (simp_all add: sliceStrings_iff)
  have lc: "length cs = sliceLen cols" using cs by (simp add: sliceStrings_iff)
  have upt: "[j..<sliceLen row] = j # [Suc j..<sliceLen row]"
    using lt by (simp add: upt_conv_Cons)
  have dv: "drop j vals = vals ! j # drop (Suc j) vals"
    using lt lv by (simp add: Cons_nth_drop_Suc)
  show ?case
  proof (cases "j < sliceLen cols")
    case True
    then have c: "indexString h cols j = Inr (cs ! j)"
      using cs by (simp add: sliceStrings_iff)
    have dc: "drop j cs = cs ! j # drop (Suc j) cs"
      using True lc by (simp add: Cons_nth_drop_Suc)
    have "fillIdentsH h cur row (idents(cs ! j \<mapsto> vals ! j)) [Suc j..<sliceLen row]
        = fillIdents (drop (Suc j) cs) (idents(cs ! j \<mapsto> vals ! j)) (drop (Suc j) vals)"
      using Suc.hyps(1) [of "Suc j"] Suc.hyps(2) lt by simp
    then show ?thesis
      by (simp add: upt v cur c dv dc)
  next
    case False
    then have c: "indexString h cols j = Inl PanicIndexOutOfRange"
      by (simp add: indexString_def)
    have dc: "drop j cs = []" using False lc by simp
    show ?thesis
      by (simp add: upt v cur c dv dc)
  qed
qed

subsection \<open>The loop of \<open>where\<close>\<close>

lemma appendRow_inplace:
  assumes "l < L" and "length xs = L"
  shows "appendRow (h0 @ [SliceArray xs, TableObject name cols (Slice (length h0) 0 l L)])
           (Suc (length h0)) row
         = (h0 @ [SliceArray (xs[l := row]), TableObject name cols (Slice (length h0) 0 (Suc l) L)],
            Inr ())"
  using assms
  by (simp add: appendRow_def readTable_def nth_append list_update_append)

lemma newTable_value:
  assumes cs: "sliceStrings h0 cols = Inr cs"
    and len: "length acc = l" "l \<le> length xs"
    and rows: "\<forall>j<l. sliceStrings h0 (xs ! j) = Inr (acc ! j)"
  shows "tableValue (h0 @ [SliceArray xs, TableObject name cols (Slice (length h0) 0 l L)])
           (Suc (length h0))
         = Inr \<lparr>Name = name, Columns = cs, Data = acc\<rparr>"
proof -
  let ?h = "h0 @ [SliceArray xs, TableObject name cols (Slice (length h0) 0 l L)]"
  have 1: "readTable ?h (Suc (length h0)) = Inr (name, cols, Slice (length h0) 0 l L)"
    by (simp add: readTable_def nth_append)
  have 2: "sliceStrings ?h cols = Inr cs"
    by (rule sliceStrings_append [OF cs])
  have "\<exists>row. indexSlice ?h (Slice (length h0) 0 l L) j = Inr row
          \<and> sliceStrings ?h row = Inr (acc ! j)" if "j < l" for j
  proof -
    have "indexSlice ?h (Slice (length h0) 0 l L) j = Inr (xs ! j)"
      using that len(2) by (simp add: indexSlice_def nth_append)
    moreover have "sliceStrings ?h (xs ! j) = Inr (acc ! j)"
      using rows that by (simp add: sliceStrings_append)
    ultimately show ?thesis by blast
  qed
  then have 3: "sliceRows ?h (Slice (length h0) 0 l L) = Inr acc"
    using len(1) by (simp add: sliceRows_iff)
  from 1 2 3 show ?thesis by (simp add: tableValue_def)
qed

lemma whereLoopH_refines:
  assumes cur: "readTable h0 cur = Inr (name, cols, data)"
    and cs: "sliceStrings h0 cols = Inr cs"
    and rows: "sliceRows h0 data = Inr rows"
    and L: "L = sliceLen data" "length xs = L"
    and i: "i \<le> L" "l \<le> i" "length acc = l"
    and acc: "\<forall>j<l. sliceStrings h0 (xs ! j) = Inr (acc ! j)"
    and run: "whereLoopH (h0 @ [SliceArray xs, TableObject '''' cols (Slice (length h0) 0 l L)])
                p cur data (Suc (length h0)) idents [i..<L] = (h', r)"
  shows "case r of
           Inl e \<Rightarrow> whereLoop p cs idents (drop i rows) acc = Inl e
         | Inr u \<Rightarrow> (\<exists>acc'. whereLoop p cs idents (drop i rows) acc = Inr acc'
                       \<and> tableValue h' (Suc (length h0))
                           = Inr \<lparr>Name = '''', Columns = cs, Data = acc'\<rparr>)"
  using i acc run L(2)
proof (induction "L - i" arbitrary: i l acc xs idents)
  case 0
  then have iL: "i = L" by simp
  have lr: "length rows = L" using rows L(1) by (simp add: sliceRows_iff)
  from 0 iL have h': "h' = h0 @ [SliceArray xs, TableObject '''' cols (Slice (length h0) 0 l L)]"
    and r: "r = Inr ()" by simp_all
  have "tableValue h' (Suc (length h0)) = Inr \<lparr>Name = '''', Columns = cs, Data = acc\<rparr>"
    unfolding h' using cs "0.prems"(3) _ "0.prems"(4)
  proof (rule newTable_value)
    show "l \<le> length xs" using "0.prems"(1,2,6) by simp
  qed
  then show ?case by (simp add: r iL lr)
next
  case (Suc k)
  let ?h = "h0 @ [SliceArray xs, TableObject '''' cols (Slice (length h0) 0 l L)]"
  let ?t = "Suc (length h0)"
  from Suc.hyps(2) have lt: "i < L" by simp
  have lr: "length rows = L" using rows L(1) by (simp add: sliceRows_iff)
  from rows lt L(1) obtain row where row0: "indexSlice h0 data i = Inr row"
    and vals0: "sliceStrings h0 row = Inr (rows ! i)"
    by (auto simp: sliceRows_iff)
  have row: "indexSlice ?h data i = Inr row" by (rule indexSlice_append [OF row0])
  have vals: "sliceStrings ?h row = Inr (rows ! i)" by (rule sliceStrings_append [OF vals0])
  have fill: "fillIdentsH ?h cur row idents [0..<sliceLen row] = fillIdents cs idents (rows ! i)"
    using fillIdentsH_refines [OF readTable_append [OF cur] sliceStrings_append [OF cs] vals,
        of 0 idents] by simp
  have upt: "[i..<L] = i # [Suc i..<L]" using lt by (simp add: upt_conv_Cons)
  have dr: "drop i rows = rows ! i # drop (Suc i) rows"
    using lt lr by (simp add: Cons_nth_drop_Suc)
  show ?case
  proof (cases "fillIdents cs idents (rows ! i)")
    case (Inl e)
    with Suc.prems(5) have "r = Inl e" by (simp add: upt row fill)
    with Inl show ?thesis by (simp add: dr)
  next
    case ids: (Inr idents')
    show ?thesis
    proof (cases "evalExpr p idents'")
      case (Inl e)
      with Suc.prems(5) ids have "r = Inl e" by (simp add: upt row fill)
      with Inl ids show ?thesis by (simp add: dr)
    next
      case res: (Inr result)
      show ?thesis
      proof (cases "stringToBool result")
        case False
        with Suc.prems(5) ids res
        have run': "whereLoopH ?h p cur data ?t idents' [Suc i..<L] = (h', r)"
          by (simp add: upt row fill)
        have "case r of
           Inl e \<Rightarrow> whereLoop p cs idents' (drop (Suc i) rows) acc = Inl e
         | Inr u \<Rightarrow> (\<exists>acc'. whereLoop p cs idents' (drop (Suc i) rows) acc = Inr acc'
                       \<and> tableValue h' ?t = Inr \<lparr>Name = '''', Columns = cs, Data = acc'\<rparr>)"
        proof (rule Suc.hyps(1) [OF _ _ _ Suc.prems(3) Suc.prems(4) run' Suc.prems(6)])
          show "k = L - Suc i" using Suc.hyps(2) by simp
          show "Suc i \<le> L" using lt by simp
          show "l \<le> Suc i" using Suc.prems(2) by simp
        qed
        then show ?thesis using ids res False by (cases r) (simp_all add: dr)
      next
        case True
        have lL: "l < L" using Suc.prems(2) lt by simp
        have ap: "appendRow ?h ?t row
            = (h0 @ [SliceArray (xs[l := row]),
                     TableObject '''' cols (Slice (length h0) 0 (Suc l) L)], Inr ())"
          by (rule appendRow_inplace [OF lL Suc.prems(6)])
        let ?h1 = "h0 @ [SliceArray (xs[l := row]),
                     TableObject '''' cols (Slice (length h0) 0 (Suc l) L)]"
        from Suc.prems(5) ids res True
        have run': "whereLoopH ?h1 p cur data ?t idents' [Suc i..<L] = (h', r)"
          by (simp add: upt row fill ap)
        have acc': "\<forall>j<Suc l. sliceStrings h0 (xs[l := row] ! j) = Inr ((acc @ [rows ! i]) ! j)"
        proof (intro allI impI)
          fix j assume "j < Suc l"
          show "sliceStrings h0 (xs[l := row] ! j) = Inr ((acc @ [rows ! i]) ! j)"
          proof (cases "j = l")
            case True
            then show ?thesis
              using lL Suc.prems(3,6) vals0 by (simp add: nth_append)
          next
            case False
            with \<open>j < Suc l\<close> have "j < l" by simp
            then show ?thesis
              using Suc.prems(3,4) by (simp add: nth_append)
          qed
        qed
        have "case r of
           Inl e \<Rightarrow> whereLoop p cs idents' (drop (Suc i) rows) (acc @ [rows ! i]) = Inl e
         | Inr u \<Rightarrow> (\<exists>acc'. whereLoop p cs idents' (drop (Suc i) rows) (acc @ [rows ! i]) = Inr acc'
                       \<and> tableValue h' ?t = Inr \<lparr>Name = '''', Columns = cs, Data = acc'\<rparr>)"
        proof (rule Suc.hyps(1) [OF _ _ _ _ acc' run'])
          show "k = L - Suc i" using Suc.hyps(2) by simp
          show "Suc i \<le> L" using lt by simp
          show "Suc l \<le> Suc i" using Suc.prems(2) by simp
          show "length (acc @ [rows ! i]) = Suc l" using Suc.prems(3) by simp
          show "length (xs[l := row]) = L" using Suc.prems(6) by simp
        qed
        then show ?thesis using ids res True by (cases r) (simp_all add: dr)
      qed
    qed
  qed
qed

subsection \<open>Operators, pipelines and \<open>Eval\<close>\<close>

lemma tableValue_parts:
  assumes "tableValue h p = Inr T"
  obtains cols data where "readTable h p = Inr (Name T, cols, data)"
    and "sliceStrings h cols = Inr (Columns T)" and "sliceRows h data = Inr (Data T)"
  using assms by (auto simp: tableValue_def split: sum.splits)

lemma indexSlice_shorter:
  "i < k \<Longrightarrow> k \<le> sliceLen s \<Longrightarrow>
   indexSlice h (Slice (sliceArray s) (sliceOffset s) k c) i = indexSlice h s i"
  by (simp add: indexSlice_def split: object.splits)

lemma count_value:
  "tableValue (h @ [StringArray [c], StringArray [v],
                    SliceArray [Slice (Suc (length h)) 0 1 1],
                    TableObject '''' (Slice (length h) 0 1 1) (Slice (Suc (Suc (length h))) 0 1 1)])
     (Suc (Suc (Suc (length h))))
   = Inr \<lparr>Name = '''', Columns = [c], Data = [[v]]\<rparr>"
proof -
  let ?h = "h @ [StringArray [c], StringArray [v],
                    SliceArray [Slice (Suc (length h)) 0 1 1],
                    TableObject '''' (Slice (length h) 0 1 1) (Slice (Suc (Suc (length h))) 0 1 1)]"
  have 1: "readTable ?h (Suc (Suc (Suc (length h))))
      = Inr ('''', Slice (length h) 0 1 1, Slice (Suc (Suc (length h))) 0 1 1)"
    by (simp add: readTable_def nth_append)
  have 2: "sliceStrings ?h (Slice (length h) 0 1 1) = Inr [c]"
    by (simp add: sliceStrings_iff indexString_def nth_append)
  have 3: "sliceStrings ?h (Slice (Suc (length h)) 0 1 1) = Inr [v]"
    by (simp add: sliceStrings_iff indexString_def nth_append)
  have 4: "indexSlice ?h (Slice (Suc (Suc (length h))) 0 1 1) 0 = Inr (Slice (Suc (length h)) 0 1 1)"
    by (simp add: indexSlice_def nth_append)
  have 5: "sliceRows ?h (Slice (Suc (Suc (length h))) 0 1 1) = Inr [[v]]"
    using 3 4 by (simp add: sliceRows_iff)
  from 1 2 5 show ?thesis by (simp add: tableValue_def)
qed

lemma evalOperatorH_refines:
  assumes R: "tableValue h cur = Inr T" and run: "evalOperatorH h cur op = (h', r)"
  shows "case r of
           Inl e \<Rightarrow> evalOperator T op = Inl e
         | Inr p \<Rightarrow> (\<exists>T'. evalOperator T op = Inr T' \<and> tableValue h' p = Inr T')"
proof -
  from R obtain cols data where cur: "readTable h cur = Inr (Name T, cols, data)"
    and cs: "sliceStrings h cols = Inr (Columns T)" and rows: "sliceRows h data = Inr (Data T)"
    by (rule tableValue_parts)
  have len: "length (Data T) = sliceLen data" using rows by (simp add: sliceRows_iff)
  show ?thesis
  proof (cases "supportedOperator op")
    case False
    then have "evalOperatorH h cur op = (h, Inl UnhandledOperator)"
      and "evalOperator T op = Inl UnhandledOperator"
      by (cases op; simp)+
    with run show ?thesis by auto
  next
    case True
    then consider "op = CountOperator" | n where "op = TakeOperator n" | q where "op = WhereOperator q"
      by (cases op) simp_all
    then show ?thesis
    proof cases
      case 1
      from run have r: "r = Inr (Suc (Suc (Suc (length h))))"
        and h': "h' = h @ [StringArray [''count()''], StringArray [Itoa (int (sliceLen data))],
                    SliceArray [Slice (Suc (length h)) 0 1 1],
                    TableObject '''' (Slice (length h) 0 1 1) (Slice (Suc (Suc (length h))) 0 1 1)]"
        by (auto simp: 1 cur alloc_def)
      have "tableValue (h @ [StringArray [''count()''], StringArray [Itoa (int (sliceLen data))],
                    SliceArray [Slice (Suc (length h)) 0 1 1],
                    TableObject '''' (Slice (length h) 0 1 1) (Slice (Suc (Suc (length h))) 0 1 1)])
              (Suc (Suc (Suc (length h))))
            = Inr \<lparr>Name = '''', Columns = [''count()''],
                   Data = [[Itoa (int (sliceLen data))]]\<rparr>"
        by (rule count_value)
      then show ?thesis
        unfolding r h' by (simp add: 1 len)
    next
      case 2
      show ?thesis
      proof (cases "evalExpr n Map.empty")
        case (Inl e)
        with run 2 show ?thesis by auto
      next
        case s: (Inr s)
        show ?thesis
        proof (cases "Atoi s")
          case (Inl e)
          with run 2 s show ?thesis by auto
        next
          case k: (Inr k)
          show ?thesis
          proof (cases "k < 0")
            case True
            with run 2 s k show ?thesis by auto
          next
            case False
            let ?m = "nat (min k (int (sliceLen data)))"
            let ?d = "Slice (sliceArray data) (sliceOffset data) ?m (sliceCap data)"
            let ?h1 = "h @ [TableObject '''' cols ?d]"
            from run 2 s k False have r: "r = Inr (length h)" and h': "h' = ?h1"
              by (auto simp: cur alloc_def)
            have m: "?m \<le> sliceLen data" by simp
            have t1: "readTable ?h1 (length h) = Inr ('''', cols, ?d)"
              by (simp add: readTable_def)
            have t2: "sliceStrings ?h1 cols = Inr (Columns T)"
              by (rule sliceStrings_append [OF cs])
            have rows1: "sliceRows ?h1 data = Inr (Data T)"
              by (rule sliceRows_append [OF rows])
            have "\<exists>row. indexSlice ?h1 ?d i = Inr row
                  \<and> sliceStrings ?h1 row = Inr (take ?m (Data T) ! i)" if "i < ?m" for i
            proof -
              from that m have "i < sliceLen data" by simp
              with rows1 obtain row where "indexSlice ?h1 data i = Inr row"
                and "sliceStrings ?h1 row = Inr (Data T ! i)"
                by (auto simp: sliceRows_iff)
              with that m show ?thesis
                by (simp add: indexSlice_shorter)
            qed
            then have t3: "sliceRows ?h1 ?d = Inr (take ?m (Data T))"
              using m len by (simp add: sliceRows_iff)
            have "tableValue ?h1 (length h)
                = Inr \<lparr>Name = '''', Columns = Columns T, Data = take ?m (Data T)\<rparr>"
              using t1 t2 t3 by (simp add: tableValue_def)
            then show ?thesis
              unfolding r h' using False by (simp add: 2 s k len)
          qed
        qed
      qed
    next
      case 3
      let ?L = "sliceLen data"
      let ?h2 = "h @ [SliceArray (replicate ?L nilSlice),
                      TableObject '''' cols (Slice (length h) 0 0 ?L)]"
      obtain h3 r3 where wl: "whereLoopH ?h2 q cur data (Suc (length h)) whereIdents [0..<?L] = (h3, r3)"
        by (cases "whereLoopH ?h2 q cur data (Suc (length h)) whereIdents [0..<?L]") auto
      have ref: "case r3 of
           Inl e \<Rightarrow> whereLoop q (Columns T) whereIdents (drop 0 (Data T)) [] = Inl e
         | Inr u \<Rightarrow> (\<exists>acc'. whereLoop q (Columns T) whereIdents (drop 0 (Data T)) [] = Inr acc'
                       \<and> tableValue h3 (Suc (length h))
                           = Inr \<lparr>Name = '''', Columns = Columns T, Data = acc'\<rparr>)"
        by (rule whereLoopH_refines [OF cur cs rows refl _ _ _ _ _ wl]) simp_all
      show ?thesis
      proof (cases r3)
        case (Inl e)
        with run 3 wl have "r = Inl e" by (simp add: cur alloc_def)
        with ref Inl show ?thesis by (simp add: 3)
      next
        case (Inr u)
        with run 3 wl have "r = Inr (Suc (length h))" and "h' = h3"
          by (simp_all add: cur alloc_def)
        with ref Inr show ?thesis by (auto simp: 3)
      qed
    qed
  qed
qed

lemma evalOperatorsH_refines:
  assumes "tableValue h cur = Inr T" and "evalOperatorsH h cur ops = (h', r)"
  shows "case r of
           Inl e \<Rightarrow> evalOperators T ops = Inl e
         | Inr p \<Rightarrow> (\<exists>T'. evalOperators T ops = Inr T' \<and> tableValue h' p = Inr T')"
  using assms
proof (induction ops arbitrary: h cur T)
  case Nil
  then show ?case by auto
next
  case (Cons op ops)
  obtain h1 r1 where op: "evalOperatorH h cur op = (h1, r1)"
    by (cases "evalOperatorH h cur op") auto
  note step = evalOperatorH_refines [OF Cons.prems(1) op]
  show ?case
  proof (cases r1)
    case (Inl e)
    with Cons.prems(2) op have "r = Inl e" by simp
    with step Inl show ?thesis by simp
  next
    case (Inr p)
    with step obtain T1 where T1: "evalOperator T op = Inr T1" and R1: "tableValue h1 p = Inr T1"
      by auto
    from Cons.prems(2) op Inr have "evalOperatorsH h1 p ops = (h', r)" by simp
    from Cons.IH [OF R1 this] T1 show ?thesis by (cases r) simp_all
  qed
qed

lemma tableMapH_refines:
  assumes "list_all2 (\<lambda>p T. tableValue h p = Inr T) ptrs Ts"
    and "\<forall>name. case m name of
                   None \<Rightarrow> M name = None
                 | Some p \<Rightarrow> (\<exists>T. M name = Some T \<and> tableValue h p = Inr T)"
  shows "\<exists>m'. tableMapH h m (map Some ptrs) = Inr m'
           \<and> (\<forall>name. case m' name of
                   None \<Rightarrow> foldl (\<lambda>m tab. m(Name tab \<mapsto> tab)) M Ts name = None
                 | Some p \<Rightarrow> (\<exists>T. foldl (\<lambda>m tab. m(Name tab \<mapsto> tab)) M Ts name = Some T
                               \<and> tableValue h p = Inr T))"
  using assms
proof (induction ptrs Ts arbitrary: m M rule: list_all2_induct)
  case Nil
  then show ?case by (simp cong: option.case_cong)
next
  case (Cons p ptrs T Ts)
  from Cons.hyps(1) obtain cols data where rt: "readTable h p = Inr (Name T, cols, data)"
    by (rule tableValue_parts)
  have "\<forall>name. case (m(Name T \<mapsto> p)) name of
                   None \<Rightarrow> (M(Name T \<mapsto> T)) name = None
                 | Some p \<Rightarrow> (\<exists>T'. (M(Name T \<mapsto> T)) name = Some T' \<and> tableValue h p = Inr T')"
  proof
    fix name
    from Cons.prems have "case m name of
                   None \<Rightarrow> M name = None
                 | Some p \<Rightarrow> (\<exists>T. M name = Some T \<and> tableValue h p = Inr T)"
      by (rule spec)
    with Cons.hyps(1) show "case (m(Name T \<mapsto> p)) name of
                   None \<Rightarrow> (M(Name T \<mapsto> T)) name = None
                 | Some p \<Rightarrow> (\<exists>T'. (M(Name T \<mapsto> T)) name = Some T' \<and> tableValue h p = Inr T')"
      by (cases "name = Name T") (auto split: option.splits)
  qed
  from Cons.IH [OF this] obtain m'
    where 1: "tableMapH h (m(Name T \<mapsto> p)) (map Some ptrs) = Inr m'"
      and 2: "\<forall>name. case m' name of
                   None \<Rightarrow> foldl (\<lambda>m tab. m(Name tab \<mapsto> tab)) (M(Name T \<mapsto> T)) Ts name = None
                 | Some p \<Rightarrow> (\<exists>T'. foldl (\<lambda>m tab. m(Name tab \<mapsto> tab)) (M(Name T \<mapsto> T)) Ts name
                                   = Some T' \<and> tableValue h p = Inr T')"
    by blast
  have step: "tableMapH h m (map Some (p # ptrs)) = tableMapH h (m(Name T \<mapsto> p)) (map Some ptrs)"
    by (simp add: rt)
  have fold: "foldl (\<lambda>m tab. m(Name tab \<mapsto> tab)) M (T # Ts)
      = foldl (\<lambda>m tab. m(Name tab \<mapsto> tab)) (M(Name T \<mapsto> T)) Ts"
    by simp
  show ?case
    unfolding step fold using 1 2 by blast
qed

lemma EvalH_refines_Eval:
  assumes tabs: "list_all2 (\<lambda>p T. tableValue h p = Inr T) ptrs Ts"
    and run: "EvalH Parse source h (map Some ptrs) = (h', r)"
  shows "case r of
           Inl e \<Rightarrow> Eval Parse source Ts = Inl e
         | Inr p \<Rightarrow> (\<exists>T. Eval Parse source Ts = Inr T \<and> tableValue h' p = Inr T)"
proof (cases "Parse source")
  case (Inl e)
  with run show ?thesis by (auto simp: EvalH_def Eval_def)
next
  case (Inr expr)
  have "\<forall>name. case (Map.empty :: string \<rightharpoonup> addr) name of
                   None \<Rightarrow> (Map.empty :: string \<rightharpoonup> Table) name = None
                 | Some p \<Rightarrow> (\<exists>T. (Map.empty :: string \<rightharpoonup> Table) name = Some T
                               \<and> tableValue h p = Inr T)"
    by simp
  from tableMapH_refines [OF tabs this] obtain m
    where m: "tableMapH h Map.empty (map Some ptrs) = Inr m"
      and rel: "\<forall>name. case m name of
                   None \<Rightarrow> tableMap Ts name = None
                 | Some p \<Rightarrow> (\<exists>T. tableMap Ts name = Some T \<and> tableValue h p = Inr T)"
    unfolding tableMap_def by blast
  from run Inr m have ev: "evalH h expr m = (h', r)" by (simp add: EvalH_def)
  have E: "Eval Parse source Ts = eval expr (tableMap Ts)" using Inr by (simp add: Eval_def)
  obtain src ops where expr: "expr = TabularExpr src ops" by (cases expr)
  show ?thesis
  proof (cases src)
    case OtherSource
    with ev expr E show ?thesis by auto
  next
    case (TableRef table)
    show ?thesis
    proof (cases "m (IdentName table)")
      case None
      from rel have "case m (IdentName table) of
                   None \<Rightarrow> tableMap Ts (IdentName table) = None
                 | Some p \<Rightarrow> (\<exists>T. tableMap Ts (IdentName table) = Some T
                               \<and> tableValue h p = Inr T)"
        by (rule spec)
      with None have "tableMap Ts (IdentName table) = None"
        by simp
      with ev expr E TableRef None show ?thesis by auto
    next
      case (Some cur)
      from rel have "case m (IdentName table) of
                   None \<Rightarrow> tableMap Ts (IdentName table) = None
                 | Some p \<Rightarrow> (\<exists>T. tableMap Ts (IdentName table) = Some T
                               \<and> tableValue h p = Inr T)"
        by (rule spec)
      with Some obtain T where T: "tableMap Ts (IdentName table) = Some T"
        and R: "tableValue h cur = Inr T"
        by auto
      from ev expr TableRef Some have "evalOperatorsH h cur ops = (h', r)" by simp
      from evalOperatorsH_refines [OF R this] show ?thesis
        by (cases r) (simp_all add: E expr TableRef T)
    qed
  qed
qed

end
